theory Spec2Isabelle
  imports Complex_Main "HOL-Library.Word" "HOL-Library.Log_Nat"
begin

section \<open>Strings and paths\<close>

text \<open>
  Go strings are byte sequences; they are modelled as \<open>string\<close> (a \<open>char list\<close>).
  The functions of this section stand for the calls into Go's \<open>strings\<close>,
  \<open>path/filepath\<close>, \<open>fmt\<close> and \<open>time\<close> packages that the uploader and the
  recorder make, restricted to the arguments the program passes.
\<close>

text \<open>\<open>strings.Split(s, "_")\<close> for a one-byte separator: never returns the empty list.\<close>

fun splitOn :: "char \<Rightarrow> string \<Rightarrow> string list" where
  "splitOn sep [] = [[]]"
| "splitOn sep (c # cs) =
     (if c = sep then [] # splitOn sep cs
      else (case splitOn sep cs of
              [] \<Rightarrow> [[c]]
            | p # ps \<Rightarrow> (c # p) # ps))"

text \<open>\<open>strings.Join(parts, sep)\<close>.\<close>

fun joinWith :: "string \<Rightarrow> string list \<Rightarrow> string" where
  "joinWith sep [] = []"
| "joinWith sep [p] = p"
| "joinWith sep (p # q # ps) = p @ sep @ joinWith sep (q # ps)"

definition HasSuffix :: "string \<Rightarrow> string \<Rightarrow> bool" where
  "HasSuffix s suffix =
     (length suffix \<le> length s \<and> drop (length s - length suffix) s = suffix)"

definition TrimSuffix :: "string \<Rightarrow> string \<Rightarrow> string" where
  "TrimSuffix s suffix =
     (if HasSuffix s suffix then take (length s - length suffix) s else s)"

text \<open>
  \<open>filepath.Base\<close> on a slash-separated path: trailing separators are dropped, the
  part after the last separator is returned, \<open>"."\<close> for the empty path and
  \<open>"/"\<close> for a path of separators only.
\<close>

fun stripTrailingSlashes :: "string \<Rightarrow> string" where
  "stripTrailingSlashes s =
     (if s \<noteq> [] \<and> last s = CHR ''/'' then stripTrailingSlashes (butlast s) else s)"

definition Base :: "string \<Rightarrow> string" where
  "Base path =
     (if path = [] then ''.''
      else let p = stripTrailingSlashes path in
        if p = [] then ''/'' else last (splitOn (CHR ''/'') p))"

text \<open>
  \<open>filepath.Join(dir, name)\<close> for the two-element joins of the recorder. The
  normalisation \<open>filepath.Clean\<close> applies afterwards is not modelled: the output directory
  is taken as already clean.
\<close>

definition Join :: "string \<Rightarrow> string \<Rightarrow> string" where
  "Join dir name = (if dir = [] then name else dir @ ''/'' @ name)"

subsection \<open>Decimal digits\<close>

definition isDigitChar :: "char \<Rightarrow> bool" where
  "isDigitChar c = (48 \<le> (of_char c :: nat) \<and> (of_char c :: nat) \<le> 57)"

definition digitVal :: "char \<Rightarrow> nat" where
  "digitVal c = of_char c - 48"

definition digitChar :: "nat \<Rightarrow> char" where
  "digitChar n = ''0123456789'' ! n"

fun decimal :: "nat \<Rightarrow> string" where
  "decimal n = (if n < 10 then [digitChar n] else decimal (n div 10) @ [digitChar (n mod 10)])"

text \<open>
  \<open>%04d\<close> and \<open>%02d\<close> of \<open>fmt.Sprintf\<close>, and the zero-padded fields of
  \<open>time.Format\<close>, on a non-negative number: at least \<open>w\<close> digits, padded with zeros.
\<close>

definition padInt :: "nat \<Rightarrow> nat \<Rightarrow> string" where
  "padInt w n = replicate (w - length (decimal n)) (CHR ''0'') @ decimal n"


section \<open>Time\<close>

text \<open>
  A \<open>time.Time\<close> as the program uses it: the UTC calendar fields that
  \<open>Format\<close> prints and \<open>Year\<close>, \<open>Month\<close> and \<open>Day\<close> return, and the monotonic
  clock reading (nanoseconds) that \<open>time.Since\<close> subtracts. The wall clock and the
  monotonic clock are separate readings, as in Go.
\<close>

record Time =
  Year :: nat
  Month :: nat
  Day :: nat
  Hour :: nat
  Minute :: nat
  Second :: nat
  mono :: int

text \<open>\<open>t.UTC().Format("20060102_1504")\<close>: the layout has no field below the minute.\<close>

definition Format :: "Time \<Rightarrow> string" where
  "Format t =
     padInt 4 (Year t) @ padInt 2 (Month t) @ padInt 2 (Day t) @ ''_'' @
     padInt 2 (Hour t) @ padInt 2 (Minute t)"

subsection \<open>Parsing the layout 20060102_1504\<close>

text \<open>
  \<open>time.Parse("20060102_1504", value)\<close>, following the steps of Go's parser for the
  chunks of this layout: a four-digit year, a two-digit month in 1..12, a two-digit day,
  the literal underscore, an hour of one or two digits below 24, a two-digit minute
  below 60, no text left over, and last the check of the day against the month's length.
\<close>

text \<open>Go's \<open>getnum(s, fixed)\<close>: one or two leading digits, exactly two when \<open>fixed\<close>.\<close>

fun getnum :: "string \<Rightarrow> bool \<Rightarrow> (nat \<times> string) option" where
  "getnum [] fixed = None"
| "getnum [a] fixed =
     (if \<not> isDigitChar a then None
      else if fixed then None
      else Some (digitVal a, []))"
| "getnum (a # b # s) fixed =
     (if \<not> isDigitChar a then None
      else if \<not> isDigitChar b then (if fixed then None else Some (digitVal a, b # s))
      else Some (digitVal a * 10 + digitVal b, s))"

text \<open>Go's \<open>atoi\<close> on an unsigned digit string: every byte must be a digit.\<close>

definition atoi :: "string \<Rightarrow> nat option" where
  "atoi p =
     (if p \<noteq> [] \<and> list_all isDigitChar p
      then Some (foldl (\<lambda>n c. n * 10 + digitVal c) 0 p)
      else None)"

definition isLeap :: "nat \<Rightarrow> bool" where
  "isLeap year = (year mod 4 = 0 \<and> (year mod 100 \<noteq> 0 \<or> year mod 400 = 0))"

definition daysIn :: "nat \<Rightarrow> nat \<Rightarrow> nat" where
  "daysIn m year =
     (if m = 2 then (if isLeap year then 29 else 28)
      else if m = 4 \<or> m = 6 \<or> m = 9 \<or> m = 11 then 30
      else 31)"

definition timeParse :: "string \<Rightarrow> Time option" where
  "timeParse v =
     (if length v < 4 \<or> \<not> isDigitChar (hd v) then None
      else case atoi (take 4 v) of
        None \<Rightarrow> None
      | Some year \<Rightarrow>
     (case getnum (drop 4 v) True of
        None \<Rightarrow> None
      | Some (month, v1) \<Rightarrow>
     if month \<le> 0 \<or> 12 < month then None
     else (case getnum v1 True of
        None \<Rightarrow> None
      | Some (day, v2) \<Rightarrow>
     (case v2 of
        [] \<Rightarrow> None
      | c # v3 \<Rightarrow>
     if c \<noteq> CHR ''_'' then None
     else (case getnum v3 False of
        None \<Rightarrow> None
      | Some (hour, v4) \<Rightarrow>
     if 24 \<le> hour then None
     else (case getnum v4 True of
        None \<Rightarrow> None
      | Some (mn, v5) \<Rightarrow>
     if 60 \<le> mn then None
     else if v5 \<noteq> [] then None
     else if day < 1 \<or> daysIn month year < day then None
     else Some \<lparr>Year = year, Month = month, Day = day, Hour = hour, Minute = mn,
                 Second = 0, mono = 0\<rparr>))))))"

section \<open>Uploader: the remote key\<close>

datatype keyError =
  InvalidFilenameFormat string
| ParseTimestamp string

text \<open>
  \<open>generateS3Key\<close>: the extension is trimmed, the name is split at underscores, the
  first part is the platform, the last two are date and time, everything between is the
  channel.
\<close>

definition generateS3Key :: "string \<Rightarrow> keyError + string" where
  "generateS3Key filename =
     (let nameWithoutExt = TrimSuffix filename ''.jsonl'';
          parts = splitOn (CHR ''_'') nameWithoutExt
      in if length parts < 4 then Inl (InvalidFilenameFormat filename)
         else
           let platform = parts ! 0;
               dateStr = parts ! (length parts - 2);
               timeStr = parts ! (length parts - 1);
               channel = joinWith ''_'' (drop 1 (take (length parts - 2) parts));
               timestamp = dateStr @ ''_'' @ timeStr
           in case timeParse timestamp of
                None \<Rightarrow> Inl (ParseTimestamp timestamp)
              | Some t \<Rightarrow>
                  Inr (padInt 4 (Year t) @ ''/'' @ padInt 2 (Month t) @ ''/'' @
                       padInt 2 (Day t) @ ''/'' @ platform @ ''/'' @ channel @ ''/'' @
                       filename))"

text \<open>
  The filename convention in the specification's words: a date token is eight digits
  \<open>YYYYMMDD\<close> naming a day of the calendar, a time token is four digits \<open>HHMM\<close>
  naming a minute of the day.
\<close>

fun isDateToken :: "string \<Rightarrow> bool" where
  "isDateToken [y1, y2, y3, y4, m1, m2, d1, d2] =
     (list_all isDigitChar [y1, y2, y3, y4, m1, m2, d1, d2] \<and>
      1 \<le> digitVal m1 * 10 + digitVal m2 \<and> digitVal m1 * 10 + digitVal m2 \<le> 12 \<and>
      1 \<le> digitVal d1 * 10 + digitVal d2 \<and>
      digitVal d1 * 10 + digitVal d2 \<le>
        daysIn (digitVal m1 * 10 + digitVal m2)
          (((digitVal y1 * 10 + digitVal y2) * 10 + digitVal y3) * 10 + digitVal y4))"
| "isDateToken _ = False"

fun isTimeToken :: "string \<Rightarrow> bool" where
  "isTimeToken [h1, h2, n1, n2] =
     (list_all isDigitChar [h1, h2, n1, n2] \<and>
      digitVal h1 * 10 + digitVal h2 < 24 \<and> digitVal n1 * 10 + digitVal n2 < 60)"
| "isTimeToken _ = False"


section \<open>Uploader: delivery with retry\<close>

record Uploader =
  bucket :: string
  deleteAfter :: bool
  maxRetries :: int

text \<open>
  What one run of \<open>uploadWithRetry\<close> meets outside the program: whether the
  \<open>PutObject\<close> call of attempt \<open>i\<close> succeeds, whether the \<open>select\<close> after the
  failed attempt \<open>i\<close> takes the \<open>ctx.Done()\<close> branch, and whether \<open>os.Remove\<close>
  succeeds.
\<close>

record uploadEnv =
  putOk :: "nat \<Rightarrow> bool"
  ctxDone :: "nat \<Rightarrow> bool"
  removeOk :: bool

text \<open>The local directory (path to content) and the bucket (key to content).\<close>

record store =
  localFiles :: "string \<rightharpoonup> string"
  remote :: "string \<rightharpoonup> string"

datatype uploadError = OpenFile | PutObject

text \<open>
  What a run does, in order: the upload attempts, the durations handed to
  \<open>time.After\<close> (nanoseconds) and the \<open>os.Remove\<close> call.
\<close>

datatype action = Attempt nat | Sleep int | Remove string

definition uploadFile :: "uploadEnv \<Rightarrow> nat \<Rightarrow> store \<Rightarrow> string \<Rightarrow> string \<Rightarrow> uploadError option \<times> store" where
  "uploadFile env attempt st localPath s3Key =
     (case localFiles st localPath of
        None \<Rightarrow> (Some OpenFile, st)
      | Some body \<Rightarrow>
          if putOk env attempt then (None, st\<lparr>remote := (remote st)(s3Key \<mapsto> body)\<rparr>)
          else (Some PutObject, st))"

text \<open>
  \<open>time.Duration(1<<uint(attempt)) * time.Second\<close>: a shift and a product of
  64-bit signed integers, in nanoseconds.
\<close>

definition backoff :: "nat \<Rightarrow> int" where
  "backoff attempt = sint ((push_bit attempt 1 :: 64 word) * 1000000000)"

definition removeLocal :: "uploadEnv \<Rightarrow> string \<Rightarrow> store \<Rightarrow> store" where
  "removeLocal env localPath st =
     (if removeOk env then st\<lparr>localFiles := (localFiles st)(localPath := None)\<rparr> else st)"

text \<open>
  The loop \<open>for attempt := 0; attempt <= u.maxRetries; attempt++\<close>. The counter is a
  Go \<open>int\<close>; the model counts in \<open>nat\<close>, which is the same as long as
  \<open>maxRetries\<close> is below the largest \<open>int\<close>.
\<close>

function uploadLoop ::
  "Uploader \<Rightarrow> uploadEnv \<Rightarrow> string \<Rightarrow> string \<Rightarrow> nat \<Rightarrow> store \<Rightarrow> action list \<times> store" where
  "uploadLoop u env localPath s3Key attempt st =
     (if int attempt \<le> maxRetries u then
        (case uploadFile env attempt st localPath s3Key of
           (None, st1) \<Rightarrow>
             if deleteAfter u
             then ([Attempt attempt, Remove localPath], removeLocal env localPath st1)
             else ([Attempt attempt], st1)
         | (Some err, st1) \<Rightarrow>
             if int attempt < maxRetries u then
               if ctxDone env attempt then ([Attempt attempt, Sleep (backoff attempt)], st1)
               else (case uploadLoop u env localPath s3Key (attempt + 1) st1 of
                       (tr, st2) \<Rightarrow> (Attempt attempt # Sleep (backoff attempt) # tr, st2))
             else (case uploadLoop u env localPath s3Key (attempt + 1) st1 of
                     (tr, st2) \<Rightarrow> (Attempt attempt # tr, st2)))
      else ([], st))"
  by pat_completeness auto
termination
  by (relation "measure (\<lambda>(u, env, localPath, s3Key, attempt, st). nat (maxRetries u + 1 - int attempt))")
     auto

declare uploadLoop.simps [simp del]

definition uploadWithRetry :: "Uploader \<Rightarrow> uploadEnv \<Rightarrow> store \<Rightarrow> string \<Rightarrow> action list \<times> store" where
  "uploadWithRetry u env st localPath =
     (let filename = Base localPath in
      case generateS3Key filename of
        Inl err \<Rightarrow> ([], st)
      | Inr s3Key \<Rightarrow> uploadLoop u env localPath s3Key 0 st)"

text \<open>
  Attempt \<open>i\<close> of a run started in store \<open>st\<close> succeeds when the file can be opened
  and the store accepts the object.
\<close>

definition attemptOk :: "uploadEnv \<Rightarrow> store \<Rightarrow> string \<Rightarrow> nat \<Rightarrow> bool" where
  "attemptOk env st localPath i = (localFiles st localPath \<noteq> None \<and> putOk env i)"

definition attemptsOf :: "action list \<Rightarrow> nat list" where
  "attemptsOf tr = concat (map (\<lambda>a. case a of Attempt i \<Rightarrow> [i] | _ \<Rightarrow> []) tr)"

definition sleepsOf :: "action list \<Rightarrow> int list" where
  "sleepsOf tr = concat (map (\<lambda>a. case a of Sleep d \<Rightarrow> [d] | _ \<Rightarrow> []) tr)"

section \<open>Recorder\<close>

record Message =
  Platform :: string
  Timestamp :: string
  Channel :: string
  Username :: string
  UserID :: string
  Message :: string
  Badges :: string

text \<open>
  A \<open>fileWriter\<close>. \<open>fileHandle\<close> is its \<open>file\<close>, the open file, named by its place in the table of
  file handles; of the \<open>bufio.Writer\<close> the model keeps the sticky error state
  (\<open>writerErr\<close>): between two calls of the recorder its buffer is empty unless a write
  has failed.
\<close>

record fileWriter =
  fileHandle :: nat
  writerErr :: bool
  createdAt :: Time
  bytesWritten :: int
  messageBuffer :: "Message list"
  platform :: string
  channel :: string
  filename :: string

record Recorder =
  outputDir :: string
  bufferSize :: int
  rotateMinutes :: int
  rotateMegabytes :: int
  currentFiles :: "string \<rightharpoonup> fileWriter"

text \<open>
  What the recorder acts on: the directory (path to content), the file handles in the
  order \<open>os.Create\<close> returned them (the path each was opened on, and whether it is still
  open), and the buffered channel \<open>fileChan\<close> with its capacity.
\<close>

record world =
  disk :: "string \<rightharpoonup> string"
  handles :: "(string \<times> bool) list"
  fileChan :: "string list"
  chanCap :: nat

datatype ioFault = WriteFails | NewlineFails | FlushFails

datatype recError =
  MkdirAll
| CreateFile string
| WriteMessage
| WriteNewline
| FlushWriter
| ContextCanceled

text \<open>
  What one call of the recorder meets outside the program: the clock reading, which
  paths \<open>os.Create\<close> can create, which file (by handle) fails on which operation,
  the result of \<open>json.Marshal\<close> on a message (\<open>None\<close> for an error) and the order in
  which \<open>range\<close> visits the keys of \<open>currentFiles\<close>. A call reads the clock more
  than once; the model gives every reading of one call the same value.
\<close>

record recEnv =
  now :: Time
  canCreate :: "string \<Rightarrow> bool"
  ioFault :: "nat \<Rightarrow> ioFault option"
  marshal :: "Message \<Rightarrow> string option"
  keyOrder :: "string list"

definition New :: "string \<Rightarrow> int \<Rightarrow> int \<Rightarrow> int \<Rightarrow> Recorder" where
  "New dir bufSize rotMinutes rotMegabytes =
     \<lparr>outputDir = dir, bufferSize = bufSize, rotateMinutes = rotMinutes,
      rotateMegabytes = sint ((word_of_int rotMegabytes :: 64 word) * 1024 * 1024),
      currentFiles = Map.empty\<rparr>"

definition isOpen :: "world \<Rightarrow> nat \<Rightarrow> bool" where
  "isOpen w h = (h < length (handles w) \<and> snd (handles w ! h))"

definition pathOf :: "world \<Rightarrow> nat \<Rightarrow> string" where
  "pathOf w h = fst (handles w ! h)"

text \<open>
  \<open>os.Create\<close>: the file is created, or truncated when it exists, and a new handle is
  returned.
\<close>

definition osCreate :: "recEnv \<Rightarrow> world \<Rightarrow> string \<Rightarrow> recError + (nat \<times> world)" where
  "osCreate env w path =
     (if \<not> canCreate env path then Inl (CreateFile path)
      else Inr (length (handles w),
                w\<lparr>disk := (disk w)(path \<mapsto> []), handles := handles w @ [(path, True)]\<rparr>))"

text \<open>Bytes written through a handle reach the file the handle was opened on.\<close>

definition writeFile :: "world \<Rightarrow> nat \<Rightarrow> string \<Rightarrow> world" where
  "writeFile w h bytes =
     (if h < length (handles w) then
        (case disk w (pathOf w h) of
           None \<Rightarrow> w
         | Some content \<Rightarrow> w\<lparr>disk := (disk w)(pathOf w h \<mapsto> content @ bytes)\<rparr>)
      else w)"

definition closeFile :: "world \<Rightarrow> nat \<Rightarrow> world" where
  "closeFile w h =
     (if h < length (handles w) then w\<lparr>handles := (handles w)[h := (pathOf w h, False)]\<rparr>
      else w)"

text \<open>The non-blocking send \<open>select { case fileChan <- filepath: ... default: ... }\<close>.\<close>

definition trySend :: "world \<Rightarrow> string \<Rightarrow> world" where
  "trySend w path =
     (if length (fileChan w) < chanCap w then w\<lparr>fileChan := fileChan w @ [path]\<rparr> else w)"

definition segmentName :: "string \<Rightarrow> string \<Rightarrow> Time \<Rightarrow> string" where
  "segmentName plat chan t = plat @ ''_'' @ chan @ ''_'' @ Format t @ ''.jsonl''"

definition createFileWriter ::
  "recEnv \<Rightarrow> Recorder \<Rightarrow> world \<Rightarrow> string \<Rightarrow> string \<Rightarrow> recError + (fileWriter \<times> world)" where
  "createFileWriter env r w plat chan =
     (let fname = segmentName plat chan (now env);
          path = Join (outputDir r) fname
      in case osCreate env w path of
           Inl err \<Rightarrow> Inl err
         | Inr (h, w1) \<Rightarrow>
             Inr (\<lparr>fileHandle = h, writerErr = False, createdAt = now env, bytesWritten = 0,
                   messageBuffer = [], platform = plat, channel = chan, filename = fname\<rparr>,
                  w1))"

text \<open>
  The loop of \<open>flushFileWriter\<close>: a message that does not marshal is skipped; a failing
  \<open>Write\<close> or \<open>WriteByte\<close> ends the loop with the bytes counted so far. The result
  is the new byte count and the bytes handed to the writer.
\<close>

fun writeAll ::
  "(Message \<Rightarrow> string option) \<Rightarrow> bool \<Rightarrow> bool \<Rightarrow> Message list \<Rightarrow> int \<Rightarrow> string \<Rightarrow>
     (recError \<times> int) + (int \<times> string)" where
  "writeAll mar writeFails newlineFails [] n out = Inr (n, out)"
| "writeAll mar writeFails newlineFails (m # ms) n out =
     (case mar m of
        None \<Rightarrow> writeAll mar writeFails newlineFails ms n out
      | Some bytes \<Rightarrow>
          if writeFails then Inl (WriteMessage, n)
          else if newlineFails then Inl (WriteNewline, n + int (length bytes))
          else writeAll mar writeFails newlineFails ms (n + int (length bytes) + 1)
                 (out @ bytes @ [CHR 0x0A]))"

text \<open>
  The fault a flush of this writer meets: a closed file fails when the buffered bytes
  are flushed to it, otherwise the environment decides.
\<close>

definition sinkFault :: "recEnv \<Rightarrow> world \<Rightarrow> fileWriter \<Rightarrow> ioFault option" where
  "sinkFault env w fw = (if \<not> isOpen w (fileHandle fw) then Some FlushFails else ioFault env (fileHandle fw))"

definition flushFileWriter ::
  "recEnv \<Rightarrow> world \<Rightarrow> fileWriter \<Rightarrow> recError option \<times> fileWriter \<times> world" where
  "flushFileWriter env w fw =
     (let flt = sinkFault env w fw in
      case writeAll (marshal env) (writerErr fw \<or> flt = Some WriteFails)
             (flt = Some NewlineFails) (messageBuffer fw) (bytesWritten fw) [] of
        Inl (err, n) \<Rightarrow> (Some err, fw\<lparr>writerErr := True, bytesWritten := n\<rparr>, w)
      | Inr (n, out) \<Rightarrow>
          if writerErr fw \<or> (out \<noteq> [] \<and> flt = Some FlushFails)
          then (Some FlushWriter,
                fw\<lparr>writerErr := True, bytesWritten := n, messageBuffer := []\<rparr>, w)
          else (None, fw\<lparr>bytesWritten := n, messageBuffer := []\<rparr>, writeFile w (fileHandle fw) out))"

definition recordMessage ::
  "recEnv \<Rightarrow> Message \<Rightarrow> Recorder \<times> world \<Rightarrow> recError option \<times> Recorder \<times> world" where
  "recordMessage env msg s =
     (case s of (r, w) \<Rightarrow>
      let key = Platform msg @ ''_'' @ Channel msg in
      case (case currentFiles r key of
              Some fw \<Rightarrow> Inr (fw, w)
            | None \<Rightarrow> createFileWriter env r w (Platform msg) (Channel msg)) of
        Inl err \<Rightarrow> (Some err, r, w)
      | Inr (fw, w1) \<Rightarrow>
          let fw1 = fw\<lparr>messageBuffer := messageBuffer fw @ [msg]\<rparr> in
          if bufferSize r \<le> int (length (messageBuffer fw1)) then
            (case flushFileWriter env w1 fw1 of
               (err, fw2, w2) \<Rightarrow> (err, r\<lparr>currentFiles := (currentFiles r)(key \<mapsto> fw2)\<rparr>, w2))
          else (None, r\<lparr>currentFiles := (currentFiles r)(key \<mapsto> fw1)\<rparr>, w1))"

subsection \<open>Durations in minutes\<close>

text \<open>
  A finite \<open>float64\<close> is a significand and a binary exponent: the number
  \<open>mant * 2 ^ expo\<close>. The operations round to the nearest number with a significand of
  53 bits, ties to the even significand, as IEEE 754 binary64 does. The exponent is not
  bounded: every number below is far from the overflow and the subnormal range.
\<close>

record float64 =
  mant :: int
  expo :: int

text \<open>The integer nearest to \<open>n / d\<close> for \<open>0 < d\<close>, the even one of two nearest.\<close>

definition roundEven :: "int \<Rightarrow> int \<Rightarrow> int" where
  "roundEven n d =
     (let f = n div d; r = n mod d in
      if 2 * r < d then f else if d < 2 * r then f + 1 else if even f then f else f + 1)"

text \<open>Numerator and denominator of \<open>(p / q) / 2 ^ k\<close>.\<close>

definition scaled :: "int \<Rightarrow> int \<Rightarrow> int \<Rightarrow> int \<times> int" where
  "scaled p q k = (if k < 0 then (p * 2 ^ nat (- k), q) else (p, q * 2 ^ nat k))"

text \<open>
  The \<open>float64\<close> nearest to \<open>p / q\<close> for \<open>0 < q\<close>: the exponent \<open>k\<close> is the one
  that brings \<open>\<bar>p / q\<bar> / 2 ^ k\<close> into \<open>[2 ^ 52, 2 ^ 53)\<close>, and the significand is that
  quotient rounded.
\<close>

definition roundTo53 :: "int \<Rightarrow> int \<Rightarrow> float64" where
  "roundTo53 p q =
     (if p = 0 then \<lparr>mant = 0, expo = 0\<rparr>
      else let k0 = bitlen \<bar>p\<bar> - bitlen q - 53;
               k = (case scaled p q k0 of (n, d) \<Rightarrow> if \<bar>n\<bar> < 2 ^ 53 * d then k0 else k0 + 1)
           in case scaled p q k of (n, d) \<Rightarrow> \<lparr>mant = roundEven n d, expo = k\<rparr>)"

text \<open>The conversion \<open>float64(n)\<close> of an integer.\<close>

definition fromInt :: "int \<Rightarrow> float64" where
  "fromInt n = roundTo53 n 1"

text \<open>\<open>x + y\<close>: the exact sum, a multiple of the smaller power of two, rounded.\<close>

definition fadd :: "float64 \<Rightarrow> float64 \<Rightarrow> float64" where
  "fadd x y =
     (let e = min (expo x) (expo y);
          z = roundTo53 (mant x * 2 ^ nat (expo x - e) + mant y * 2 ^ nat (expo y - e)) 1
      in \<lparr>mant = mant z, expo = expo z + e\<rparr>)"

text \<open>\<open>x / y\<close> for \<open>y\<close> other than zero: the exact quotient rounded.\<close>

definition fdiv :: "float64 \<Rightarrow> float64 \<Rightarrow> float64" where
  "fdiv x y =
     (let z = roundTo53 (mant x * sgn (mant y)) \<bar>mant y\<bar>
      in \<lparr>mant = mant z, expo = expo z + expo x - expo y\<rparr>)"

text \<open>\<open>x >= y\<close>.\<close>

definition fge :: "float64 \<Rightarrow> float64 \<Rightarrow> bool" where
  "fge x y =
     (let e = min (expo x) (expo y)
      in mant y * 2 ^ nat (expo y - e) \<le> mant x * 2 ^ nat (expo x - e))"

text \<open>The real number a \<open>float64\<close> stands for.\<close>

definition valof :: "float64 \<Rightarrow> real" where
  "valof x = real_of_int (mant x) * 2 powi expo x"

text \<open>Go's \<open>/\<close> and \<open>%\<close> on integers: the quotient is truncated towards zero.\<close>

definition quoInt :: "int \<Rightarrow> int \<Rightarrow> int" where
  "quoInt a b = sgn a * sgn b * (\<bar>a\<bar> div \<bar>b\<bar>)"

definition remInt :: "int \<Rightarrow> int \<Rightarrow> int" where
  "remInt a b = sgn a * (\<bar>a\<bar> mod \<bar>b\<bar>)"

text \<open>
  \<open>time.Since(t)\<close> for a \<open>t\<close> that carries a monotonic reading, as \<open>time.Now()\<close>
  gives it: the difference of the monotonic readings in nanoseconds, which \<open>subMono\<close>
  saturates at the ends of \<open>int64\<close>.
\<close>

definition subMono :: "int \<Rightarrow> int \<Rightarrow> int" where
  "subMono t u =
     (if 9223372036854775807 < t - u then 9223372036854775807
      else if t - u < - 9223372036854775808 then - 9223372036854775808
      else t - u)"

definition Since :: "recEnv \<Rightarrow> Time \<Rightarrow> int" where
  "Since env t = subMono (mono (now env)) (mono t)"

text \<open>
  \<open>Duration.Minutes\<close>:
  \<open>min := d / Minute; nsec := d % Minute; return float64(min) + float64(nsec)/(60*1e9)\<close>.
\<close>

definition Minutes :: "int \<Rightarrow> float64" where
  "Minutes d =
     fadd (fromInt (quoInt d 60000000000))
          (fdiv (fromInt (remInt d 60000000000)) (fromInt 60000000000))"

text \<open>
  The two tests of \<open>checkRotation\<close>:
  \<open>time.Since(fw.createdAt).Minutes() >= float64(r.rotateMinutes)\<close> and
  \<open>fw.bytesWritten >= r.rotateMegabytes\<close>.
\<close>

definition needsRotation :: "recEnv \<Rightarrow> Recorder \<Rightarrow> fileWriter \<Rightarrow> bool" where
  "needsRotation env r fw =
     (fge (Minutes (Since env (createdAt fw))) (fromInt (rotateMinutes r)) \<or>
      rotateMegabytes r \<le> bytesWritten fw)"

subsection \<open>Rotation and shutdown\<close>

text \<open>
  \<open>rotateFile\<close>. Every error is logged and the rotation goes on. The second
  \<open>fw.writer.Flush()\<close> finds the buffer empty, or the sticky error, and changes nothing.
\<close>

definition rotateFile ::
  "recEnv \<Rightarrow> string \<Rightarrow> fileWriter \<Rightarrow> Recorder \<times> world \<Rightarrow> Recorder \<times> world" where
  "rotateFile env key fw s =
     (case s of (r, w) \<Rightarrow>
      case flushFileWriter env w fw of (err, fw1, w1) \<Rightarrow>
      let w2 = closeFile w1 (fileHandle fw1);
          w3 = trySend w2 (Join (outputDir r) (filename fw1))
      in case createFileWriter env r w3 (platform fw1) (channel fw1) of
           Inl err \<Rightarrow> (r\<lparr>currentFiles := (currentFiles r)(key := None)\<rparr>, w3)
         | Inr (newFw, w4) \<Rightarrow> (r\<lparr>currentFiles := (currentFiles r)(key \<mapsto> newFw)\<rparr>, w4))"

definition rotationStep :: "recEnv \<Rightarrow> string \<Rightarrow> Recorder \<times> world \<Rightarrow> Recorder \<times> world" where
  "rotationStep env key s =
     (case currentFiles (fst s) key of
        None \<Rightarrow> s
      | Some fw \<Rightarrow> if needsRotation env (fst s) fw then rotateFile env key fw s else s)"

definition checkRotation :: "recEnv \<Rightarrow> Recorder \<times> world \<Rightarrow> Recorder \<times> world" where
  "checkRotation env s = fold (rotationStep env) (keyOrder env) s"

definition flushStep :: "recEnv \<Rightarrow> string \<Rightarrow> Recorder \<times> world \<Rightarrow> Recorder \<times> world" where
  "flushStep env key s =
     (case s of (r, w) \<Rightarrow>
      case currentFiles r key of
        None \<Rightarrow> s
      | Some fw \<Rightarrow>
          (case flushFileWriter env w fw of (err, fw1, w1) \<Rightarrow>
           let w2 = closeFile w1 (fileHandle fw1);
               w3 = trySend w2 (Join (outputDir r) (filename fw1))
           in (r\<lparr>currentFiles := (currentFiles r)(key := None)\<rparr>, w3)))"

definition flushAll :: "recEnv \<Rightarrow> Recorder \<times> world \<Rightarrow> Recorder \<times> world" where
  "flushAll env s = fold (flushStep env) (keyOrder env) s"

text \<open>
  The loop of \<open>Start\<close>: each turn of the \<open>select\<close> takes a message, a tick of the
  rotation timer or the cancellation, given here with the environment of that turn.
\<close>

datatype event = Msg Message | Tick | Done

fun runLoop :: "(recEnv \<times> event) list \<Rightarrow> Recorder \<times> world \<Rightarrow> Recorder \<times> world" where
  "runLoop [] s = s"
| "runLoop ((env, Msg m) # evs) s = runLoop evs (snd (recordMessage env m s))"
| "runLoop ((env, Tick) # evs) s = runLoop evs (checkRotation env s)"
| "runLoop ((env, Done) # evs) s = flushAll env s"

definition Start ::
  "bool \<Rightarrow> (recEnv \<times> event) list \<Rightarrow> Recorder \<times> world \<Rightarrow> recError option \<times> Recorder \<times> world" where
  "Start mkdirOk evs s =
     (if \<not> mkdirOk then (Some MkdirAll, s)
      else (Some ContextCanceled, runLoop evs s))"

text \<open>The bytes a flush appends for a buffer of messages: one line per message that marshals.\<close>

definition encodeLines :: "(Message \<Rightarrow> string option) \<Rightarrow> Message list \<Rightarrow> string" where
  "encodeLines mar ms =
     concat (map (\<lambda>m. case mar m of None \<Rightarrow> [] | Some bytes \<Rightarrow> bytes @ [CHR 0x0A]) ms)"

text \<open>Two clock readings in the same UTC minute.\<close>

definition sameMinute :: "Time \<Rightarrow> Time \<Rightarrow> bool" where
  "sameMinute t1 t2 =
     (Year t1 = Year t2 \<and> Month t1 = Month t2 \<and> Day t1 = Day t2 \<and>
      Hour t1 = Hour t2 \<and> Minute t1 = Minute t2)"

text \<open>The world of a rotation just before the replacement writer is created.\<close>

definition rotated :: "recEnv \<Rightarrow> Recorder \<Rightarrow> world \<Rightarrow> fileWriter \<Rightarrow> world" where
  "rotated env r w fw =
     trySend (closeFile (snd (snd (flushFileWriter env w fw))) (fileHandle fw))
       (Join (outputDir r) (filename fw))"

section \<open>Example inputs\<close>

text \<open>
  The inputs of the concrete runs below. \<open>jsonObject\<close> is the line
  \<open>json.Marshal\<close> writes for a message whose strings hold no byte that JSON or HTML
  escaping rewrites.
\<close>

definition jsonField :: "string \<Rightarrow> string \<Rightarrow> string" where
  "jsonField name val = [CHR 0x22] @ name @ [CHR 0x22] @ '':'' @ [CHR 0x22] @ val @ [CHR 0x22]"

definition jsonObject :: "Message \<Rightarrow> string" where
  "jsonObject m =
     ''{'' @ jsonField ''platform'' (Platform m) @ '','' @
     jsonField ''timestamp'' (Timestamp m) @ '','' @
     jsonField ''channel'' (Channel m) @ '','' @
     jsonField ''username'' (Username m) @ '','' @
     jsonField ''user_id'' (UserID m) @ '','' @
     jsonField ''message'' (Message m) @
     (if Badges m = [] then [] else '','' @ jsonField ''badges'' (Badges m)) @ ''}''"

definition chatMessage :: "string \<Rightarrow> string \<Rightarrow> Message" where
  "chatMessage chan text =
     \<lparr>Platform = ''twitch'', Timestamp = ''2025-12-30T10:30:05Z'', Channel = chan,
      Username = ''viewer'', UserID = ''1'', Message = text, Badges = []\<rparr>"

text \<open>A reading of the clock on 2025-12-30 at 10:mm:ss UTC, with the monotonic clock in seconds.\<close>

definition clockAt :: "nat \<Rightarrow> nat \<Rightarrow> int \<Rightarrow> Time" where
  "clockAt mm ss monoSeconds =
     \<lparr>Year = 2025, Month = 12, Day = 30, Hour = 10, Minute = mm, Second = ss,
      mono = monoSeconds * 1000000000\<rparr>"

text \<open>An environment without faults.\<close>

definition quietEnv :: "Time \<Rightarrow> string list \<Rightarrow> recEnv" where
  "quietEnv t order =
     \<lparr>now = t, canCreate = (\<lambda>path. True), ioFault = (\<lambda>h. None),
      marshal = (\<lambda>m. Some (jsonObject m)), keyOrder = order\<rparr>"

definition emptyWorld :: "nat \<Rightarrow> world" where
  "emptyWorld cap = \<lparr>disk = Map.empty, handles = [], fileChan = [], chanCap = cap\<rparr>"

text \<open>
  The writer \<open>createFileWriter\<close> makes for a platform and channel at a clock reading, on
  a given file handle, after some bytes were written and with some messages pending.
\<close>

definition writerOf ::
  "string \<Rightarrow> string \<Rightarrow> nat \<Rightarrow> Time \<Rightarrow> int \<Rightarrow> Message list \<Rightarrow> fileWriter" where
  "writerOf plat chan h t n pending =
     \<lparr>fileHandle = h, writerErr = False, createdAt = t, bytesWritten = n,
      messageBuffer = pending, platform = plat, channel = chan,
      filename = segmentName plat chan t\<rparr>"



text \<open>A message of one mebibyte.\<close>

definition floodMessage :: Message where
  "floodMessage = chatMessage ''ludwig'' (replicate 1048576 (CHR ''x''))"

text \<open>
  A recorder that rotates after 30 minutes or 100 MiB, with three writers: the first was
  created at 10:00:00, the second at 10:30:06 and has reached the size limit, the third at
  10:30:07.
\<close>

definition agedRecorder :: Recorder where
  "agedRecorder =
     \<lparr>outputDir = ''data'', bufferSize = 100, rotateMinutes = 30,
      rotateMegabytes = 104857600,
      currentFiles =
        [''twitch_ludwig'' \<mapsto>
           writerOf ''twitch'' ''ludwig'' 0 (clockAt 0 0 0) 2048 [chatMessage ''ludwig'' ''gg''],
         ''twitch_xqc'' \<mapsto>
           writerOf ''twitch'' ''xqc'' 1 (clockAt 30 6 1806) 104857600 [],
         ''twitch_moonmoon'' \<mapsto>
           writerOf ''twitch'' ''moonmoon'' 2 (clockAt 30 7 1807) 10
             [chatMessage ''moonmoon'' ''hi'']]\<rparr>"

definition agedWorld :: world where
  "agedWorld =
     \<lparr>disk = [''data/twitch_ludwig_20251230_1000.jsonl'' \<mapsto> ''{line 1}'',
              ''data/twitch_xqc_20251230_1030.jsonl'' \<mapsto> ''{line 2}'',
              ''data/twitch_moonmoon_20251230_1030.jsonl'' \<mapsto> ''{line 3}''],
      handles = [(''data/twitch_ludwig_20251230_1000.jsonl'', True),
                 (''data/twitch_xqc_20251230_1030.jsonl'', True),
                 (''data/twitch_moonmoon_20251230_1030.jsonl'', True)],
      fileChan = [], chanCap = 100\<rparr>"

text \<open>
  A recorder that rotates after 262145 minutes, with one writer created at 10:00:00, and
  the reading of the clock one nanosecond before the writer is 262145 minutes old.
\<close>

definition patientRecorder :: Recorder where
  "patientRecorder =
     \<lparr>outputDir = ''data'', bufferSize = 100, rotateMinutes = 262145,
      rotateMegabytes = 104857600,
      currentFiles =
        [''twitch_ludwig'' \<mapsto> writerOf ''twitch'' ''ludwig'' 0 (clockAt 0 0 0) 2048 []]\<rparr>"

definition patientWorld :: world where
  "patientWorld =
     \<lparr>disk = [''data/twitch_ludwig_20251230_1000.jsonl'' \<mapsto> ''{line 1}''],
      handles = [(''data/twitch_ludwig_20251230_1000.jsonl'', True)],
      fileChan = [], chanCap = 100\<rparr>"

definition almostDue :: Time where
  "almostDue =
     \<lparr>Year = 2026, Month = 6, Day = 30, Hour = 11, Minute = 4, Second = 59,
      mono = 15728699999999999\<rparr>"


section \<open>Properties of the uploader\<close>

subsection \<open>Digits and the timestamp\<close>

lemma isDigitChar_iff: "isDigitChar c \<longleftrightarrow> c \<in> set ''0123456789''"
  by (cases c) (simp add: isDigitChar_def)
lemma digit_roundtrip: "isDigitChar c \<Longrightarrow> digitChar (digitVal c) = c"
  by (auto simp: isDigitChar_iff digitChar_def digitVal_def)
lemma digitVal_lt: "isDigitChar c \<Longrightarrow> digitVal c < 10"
  by (auto simp: isDigitChar_iff digitVal_def)
lemma underscore_not_digit: "\<not> isDigitChar (CHR ''_'')"
  by (simp add: isDigitChar_def)

lemma decimal_digit: "n < 10 \<Longrightarrow> decimal n = [digitChar n]"
  by simp
lemma decimal_step: "0 < q \<Longrightarrow> r < 10 \<Longrightarrow> decimal (q * 10 + r) = decimal q @ [digitChar r]"
  by (subst decimal.simps) simp
lemma digitChar_0: "digitChar 0 = CHR ''0''" by (simp add: digitChar_def)

lemma pad_short:
  "length s = k \<Longrightarrow> k \<le> w \<Longrightarrow> replicate (w - length s) (CHR ''0'') @ s = replicate (w - k) (CHR ''0'') @ s"
  by simp

lemma decimal2:
  assumes "0 < a" "a < 10" "b < 10"
  shows "decimal (a * 10 + b) = [digitChar a, digitChar b]"
proof -
  have "decimal (a * 10 + b) = decimal a @ [digitChar b]"
    using assms by (intro decimal_step) auto
  also have "decimal a = [digitChar a]" using assms by (intro decimal_digit)
  finally show ?thesis by simp
qed

lemma decimal3:
  assumes "0 < a" "a < 10" "b < 10" "c < 10"
  shows "decimal ((a * 10 + b) * 10 + c) = [digitChar a, digitChar b, digitChar c]"
proof -
  have "decimal ((a * 10 + b) * 10 + c) = decimal (a * 10 + b) @ [digitChar c]"
    using assms by (intro decimal_step) auto
  also have "decimal (a * 10 + b) = [digitChar a, digitChar b]"
    using assms by (intro decimal2)
  finally show ?thesis by simp
qed

lemma decimal4:
  assumes "0 < a" "a < 10" "b < 10" "c < 10" "d < 10"
  shows "decimal (((a * 10 + b) * 10 + c) * 10 + d) =
           [digitChar a, digitChar b, digitChar c, digitChar d]"
proof -
  have "decimal (((a * 10 + b) * 10 + c) * 10 + d) = decimal ((a * 10 + b) * 10 + c) @ [digitChar d]"
    using assms by (intro decimal_step) auto
  also have "decimal ((a * 10 + b) * 10 + c) = [digitChar a, digitChar b, digitChar c]"
    using assms by (intro decimal3)
  finally show ?thesis by simp
qed

lemma replicate_zeros:
  "replicate (Suc 0) c = [c]" "replicate 2 c = [c, c]" "replicate 3 c = [c, c, c]"
  by (simp_all add: numeral_eq_Suc)

lemma padInt2:
  assumes "a < 10" "b < 10"
  shows "padInt 2 (a * 10 + b) = [digitChar a, digitChar b]"
proof (cases "a = 0")
  case True
  have "decimal b = [digitChar b]" using assms by (intro decimal_digit)
  with True show ?thesis
    unfolding padInt_def by (simp add: digitChar_0 del: decimal.simps)
next
  case False
  with assms have "decimal (a * 10 + b) = [digitChar a, digitChar b]"
    by (intro decimal2) auto
  then show ?thesis unfolding padInt_def by (simp del: decimal.simps)
qed

lemma padInt4:
  assumes "a < 10" "b < 10" "c < 10" "d < 10"
  shows "padInt 4 (((a * 10 + b) * 10 + c) * 10 + d) =
           [digitChar a, digitChar b, digitChar c, digitChar d]"
proof -
  consider "a = 0" "b = 0" "c = 0" | "a = 0" "b = 0" "0 < c" | "a = 0" "0 < b" | "0 < a"
    by linarith
  then show ?thesis
  proof cases
    case 1
    have "decimal d = [digitChar d]" using assms by (intro decimal_digit)
    with 1 show ?thesis
      unfolding padInt_def by (simp add: digitChar_0 replicate_zeros del: decimal.simps)
  next
    case 2
    with assms have "decimal (c * 10 + d) = [digitChar c, digitChar d]"
      by (intro decimal2) auto
    with 2 show ?thesis
      unfolding padInt_def by (simp add: digitChar_0 replicate_zeros del: decimal.simps)
  next
    case 3
    with assms have "decimal ((b * 10 + c) * 10 + d) = [digitChar b, digitChar c, digitChar d]"
      by (intro decimal3) auto
    with 3 show ?thesis
      unfolding padInt_def by (simp add: digitChar_0 replicate_zeros del: decimal.simps)
  next
    case 4
    with assms have "decimal (((a * 10 + b) * 10 + c) * 10 + d) =
        [digitChar a, digitChar b, digitChar c, digitChar d]"
      by (intro decimal4) auto
    then show ?thesis unfolding padInt_def by (simp del: decimal.simps)
  qed
qed

lemma isDateToken_shape:
  assumes "isDateToken d"
  obtains y1 y2 y3 y4 m1 m2 d1 d2 where "d = [y1, y2, y3, y4, m1, m2, d1, d2]"
  using assms by (rule isDateToken.elims) auto

lemma isTimeToken_shape:
  assumes "isTimeToken t"
  obtains h1 h2 n1 n2 where "t = [h1, h2, n1, n2]"
  using assms by (rule isTimeToken.elims) auto

lemma timeParse_tokens:
  assumes "isDateToken d" "isTimeToken t"
  shows "\<exists>tm. timeParse (d @ ''_'' @ t) = Some tm \<and>
           padInt 4 (Year tm) = take 4 d \<and> padInt 2 (Month tm) = take 2 (drop 4 d) \<and>
           padInt 2 (Day tm) = drop 6 d"
proof -
  from assms(1) obtain y1 y2 y3 y4 m1 m2 d1 d2 where d: "d = [y1, y2, y3, y4, m1, m2, d1, d2]"
    by (rule isDateToken_shape)
  from assms(2) obtain h1 h2 n1 n2 where t: "t = [h1, h2, n1, n2]"
    by (rule isTimeToken_shape)
  from assms d t have dig: "isDigitChar y1" "isDigitChar y2" "isDigitChar y3" "isDigitChar y4"
    "isDigitChar m1" "isDigitChar m2" "isDigitChar d1" "isDigitChar d2"
    "isDigitChar h1" "isDigitChar h2" "isDigitChar n1" "isDigitChar n2"
    by simp_all
  from assms d t have rng:
    "1 \<le> digitVal m1 * 10 + digitVal m2" "digitVal m1 * 10 + digitVal m2 \<le> 12"
    "1 \<le> digitVal d1 * 10 + digitVal d2"
    "digitVal d1 * 10 + digitVal d2 \<le> daysIn (digitVal m1 * 10 + digitVal m2)
          (((digitVal y1 * 10 + digitVal y2) * 10 + digitVal y3) * 10 + digitVal y4)"
    "digitVal h1 * 10 + digitVal h2 < 24" "digitVal n1 * 10 + digitVal n2 < 60"
    by simp_all
  let ?tm = "\<lparr>Year = ((digitVal y1 * 10 + digitVal y2) * 10 + digitVal y3) * 10 + digitVal y4,
              Month = digitVal m1 * 10 + digitVal m2, Day = digitVal d1 * 10 + digitVal d2,
              Hour = digitVal h1 * 10 + digitVal h2, Minute = digitVal n1 * 10 + digitVal n2,
              Second = 0, mono = 0\<rparr>"
  have p: "timeParse (d @ ''_'' @ t) = Some ?tm"
    using dig rng unfolding d t timeParse_def atoi_def by simp arith
  have "padInt 4 (Year ?tm) = take 4 d"
    using dig by (simp only: Time.simps padInt4 digitVal_lt digit_roundtrip d) simp
  moreover have "padInt 2 (Month ?tm) = take 2 (drop 4 d)"
    using dig by (simp only: Time.simps padInt2 digitVal_lt digit_roundtrip d) simp
  moreover have "padInt 2 (Day ?tm) = drop 6 d"
    using dig by (simp only: Time.simps padInt2 digitVal_lt digit_roundtrip d) simp
  ultimately show ?thesis using p by blast
qed

lemma getnum_fixed_shape:
  assumes "getnum s True = Some (n, rest)"
  obtains a b where "s = a # b # rest" "isDigitChar a" "isDigitChar b"
    "n = digitVal a * 10 + digitVal b"
proof (cases s)
  case Nil
  with assms show ?thesis by simp
next
  case (Cons a s')
  show ?thesis
  proof (cases s')
    case Nil
    with Cons assms show ?thesis by (simp split: if_splits)
  next
    case (Cons b s'')
    with \<open>s = a # s'\<close> assms that show ?thesis by (simp split: if_splits)
  qed
qed

lemma getnum_hour_minute_shape:
  assumes h: "getnum s False = Some (hour, s1)" and m: "getnum s1 True = Some (mn, [])"
  obtains h1 h2 n1 n2 where "s = [h1, h2, n1, n2]" "list_all isDigitChar [h1, h2, n1, n2]"
    "hour = digitVal h1 * 10 + digitVal h2" "mn = digitVal n1 * 10 + digitVal n2"
proof -
  from m obtain n1 n2 where s1: "s1 = [n1, n2]" and n: "isDigitChar n1" "isDigitChar n2"
    "mn = digitVal n1 * 10 + digitVal n2"
    by (rule getnum_fixed_shape)
  show ?thesis
  proof (cases s)
    case Nil
    with h show ?thesis by simp
  next
    case (Cons a s')
    show ?thesis
    proof (cases s')
      case Nil
      with Cons h s1 show ?thesis by (simp split: if_splits)
    next
      case (Cons b s'')
      with \<open>s = a # s'\<close> h s1 n that show ?thesis by (auto split: if_splits)
    qed
  qed
qed

lemma length4_shape: "length xs = 4 \<Longrightarrow> \<exists>a b c d. xs = [a, b, c, d]"
  by (auto simp: length_Suc_conv numeral_eq_Suc)

lemma take4_shape:
  assumes "4 \<le> length v"
  obtains y1 y2 y3 y4 where "take 4 v = [y1, y2, y3, y4]"
proof -
  have "length (take 4 v) = 4" using assms by simp
  then have "\<exists>a b c d. take 4 v = [a, b, c, d]" by (rule length4_shape)
  then show ?thesis using that by blast
qed

lemma timeParse_shape:
  assumes "timeParse v = Some tm"
  shows "\<exists>d t. v = d @ ''_'' @ t \<and> isDateToken d \<and> isTimeToken t"
proof -
  from assms have len: "4 \<le> length v"
    by (auto simp: timeParse_def split: if_splits)
  from assms len obtain year where y: "atoi (take 4 v) = Some year"
    by (auto simp: timeParse_def split: if_splits option.splits)
  from assms len y obtain month v1 where g1: "getnum (drop 4 v) True = Some (month, v1)"
    by (auto simp: timeParse_def split: if_splits option.splits)
  from assms len y g1 have mr: "1 \<le> month" "month \<le> 12"
    by (auto simp: timeParse_def split: if_splits option.splits)
  from assms len y g1 mr obtain day v2 where g2: "getnum v1 True = Some (day, v2)"
    by (auto simp: timeParse_def split: if_splits option.splits)
  from assms len y g1 mr g2 obtain v3 where v2: "v2 = CHR ''_'' # v3"
    by (auto simp: timeParse_def split: if_splits option.splits list.splits)
  from assms len y g1 mr g2 v2 obtain hour v4 where g3: "getnum v3 False = Some (hour, v4)"
    by (auto simp: timeParse_def split: if_splits option.splits)
  from assms len y g1 mr g2 v2 g3 have hr: "hour < 24"
    by (auto simp: timeParse_def split: if_splits option.splits)
  from assms len y g1 mr g2 v2 g3 hr obtain mn where g4: "getnum v4 True = Some (mn, [])"
    and rest: "mn < 60" "1 \<le> day" "day \<le> daysIn month year"
    by (auto simp: timeParse_def split: if_splits option.splits)
  from len obtain y1 y2 y3 y4 where t4: "take 4 v = [y1, y2, y3, y4]"
    by (rule take4_shape)
  from y t4 have yd: "list_all isDigitChar [y1, y2, y3, y4]"
    and yv: "year = ((digitVal y1 * 10 + digitVal y2) * 10 + digitVal y3) * 10 + digitVal y4"
    by (auto simp: atoi_def split: if_splits)
  from g1 obtain m1 m2 where d4: "drop 4 v = m1 # m2 # v1" and md: "isDigitChar m1" "isDigitChar m2"
    and mv: "month = digitVal m1 * 10 + digitVal m2"
    by (rule getnum_fixed_shape)
  from g2 obtain d1 d2 where v1: "v1 = d1 # d2 # v2" and dd: "isDigitChar d1" "isDigitChar d2"
    and dv: "day = digitVal d1 * 10 + digitVal d2"
    by (rule getnum_fixed_shape)
  from g3 g4 obtain h1 h2 n1 n2 where v3: "v3 = [h1, h2, n1, n2]"
    and td: "list_all isDigitChar [h1, h2, n1, n2]"
    and hv: "hour = digitVal h1 * 10 + digitVal h2" and nv: "mn = digitVal n1 * 10 + digitVal n2"
    by (rule getnum_hour_minute_shape)
  have "v = take 4 v @ drop 4 v" by simp
  then have v: "v = [y1, y2, y3, y4, m1, m2, d1, d2] @ ''_'' @ [h1, h2, n1, n2]"
    by (simp add: t4 d4 v1 v2 v3)
  have "isDateToken [y1, y2, y3, y4, m1, m2, d1, d2]"
    using yd md dd mr rest by (simp add: mv dv yv)
  moreover have "isTimeToken [h1, h2, n1, n2]"
    using td hr rest by (simp add: hv nv)
  ultimately show ?thesis using v by blast
qed

lemma isDateToken_digits: "isDateToken d \<Longrightarrow> list_all isDigitChar d \<and> length d = 8"
  by (erule isDateToken.elims) auto

lemma isTimeToken_digits: "isTimeToken t \<Longrightarrow> list_all isDigitChar t \<and> length t = 4"
  by (erule isTimeToken.elims) auto


lemma digits_split_unique:
  assumes "d @ CHR ''_'' # t = d' @ CHR ''_'' # t'" "list_all isDigitChar d'" "list_all isDigitChar t'"
  shows "d = d' \<and> t = t'"
  using assms
proof (induction d' arbitrary: d)
  case Nil
  then show ?case by (cases d) (auto simp: underscore_not_digit)
next
  case (Cons a d')
  then show ?case by (cases d) (auto simp: underscore_not_digit)
qed

lemma timeParse_Some_tokens:
  assumes "timeParse (d @ ''_'' @ t) = Some tm"
  shows "isDateToken d \<and> isTimeToken t"
proof -
  from timeParse_shape[OF assms] obtain d' t' where
    eq: "d @ ''_'' @ t = d' @ ''_'' @ t'" and v: "isDateToken d'" "isTimeToken t'"
    by blast
  from v have "list_all isDigitChar d'" "list_all isDigitChar t'"
    by (simp_all add: isDateToken_digits isTimeToken_digits)
  with eq have "d = d' \<and> t = t'" by (intro digits_split_unique) simp_all
  with v show ?thesis by simp
qed

subsection \<open>The backoff duration\<close>

lemma sint64_of_int:
  assumes "- (2 ^ 63) \<le> k" "k < 2 ^ 63"
  shows "sint (word_of_int k :: 64 word) = k"
proof -
  have "sint (word_of_int k :: 64 word) = signed_take_bit (LENGTH(64) - 1) k"
    by (rule sint_sbintrunc')
  also have "\<dots> = k" using assms by (intro signed_take_bit_int_eq_self) simp_all
  finally show ?thesis .
qed

lemma backoff_small: "attempt \<le> 33 \<Longrightarrow> backoff attempt = 2 ^ attempt * 1000000000"
proof -
  assume a: "attempt \<le> 33"
  have "(2::int) ^ attempt \<le> 2 ^ 33" using a by (intro power_increasing) auto
  then have b: "(2::int) ^ attempt * 1000000000 < 2 ^ 63" by simp
  have "(push_bit attempt 1 :: 64 word) * 1000000000 = word_of_int (2 ^ attempt * 1000000000)"
    by (simp add: push_bit_eq_mult)
  then have "backoff attempt = sint (word_of_int (2 ^ attempt * 1000000000) :: 64 word)"
    by (simp add: backoff_def)
  also have "\<dots> = 2 ^ attempt * 1000000000"
  proof (rule sint64_of_int)
    show "- (2 ^ 63) \<le> (2::int) ^ attempt * 1000000000"
      by (rule order_trans [of _ 0]) simp_all
    show "(2::int) ^ attempt * 1000000000 < 2 ^ 63" by (rule b)
  qed
  finally show ?thesis .
qed

subsection \<open>The retry loop\<close>

lemma attemptsOf_simps [simp]:
  "attemptsOf [] = []"
  "attemptsOf (Attempt i # tr) = i # attemptsOf tr"
  "attemptsOf (Sleep d # tr) = attemptsOf tr"
  "attemptsOf (Remove p # tr) = attemptsOf tr"
  by (simp_all add: attemptsOf_def)

lemma sleepsOf_simps [simp]:
  "sleepsOf [] = []"
  "sleepsOf (Attempt i # tr) = sleepsOf tr"
  "sleepsOf (Sleep d # tr) = d # sleepsOf tr"
  "sleepsOf (Remove p # tr) = sleepsOf tr"
  by (simp_all add: sleepsOf_def)

lemma uploadLoop_done: "\<not> int a \<le> maxRetries u \<Longrightarrow> uploadLoop u env p k a st = ([], st)"
  by (subst uploadLoop.simps) simp

lemma uploadLoop_success:
  assumes "int a \<le> maxRetries u" "attemptOk env st p a"
  shows "uploadLoop u env p k a st =
           (if deleteAfter u
            then ([Attempt a, Remove p],
                  removeLocal env p (st\<lparr>remote := (remote st)(k \<mapsto> the (localFiles st p))\<rparr>))
            else ([Attempt a], st\<lparr>remote := (remote st)(k \<mapsto> the (localFiles st p))\<rparr>))"
  using assms by (subst uploadLoop.simps) (auto simp: uploadFile_def attemptOk_def)

lemma uploadLoop_cancelled:
  assumes "int a < maxRetries u" "\<not> attemptOk env st p a" "ctxDone env a"
  shows "uploadLoop u env p k a st = ([Attempt a, Sleep (backoff a)], st)"
  using assms by (subst uploadLoop.simps) (auto simp: uploadFile_def attemptOk_def split: option.splits)

lemma uploadLoop_retry:
  assumes "int a < maxRetries u" "\<not> attemptOk env st p a" "\<not> ctxDone env a"
  shows "uploadLoop u env p k a st =
           (Attempt a # Sleep (backoff a) # fst (uploadLoop u env p k (Suc a) st),
            snd (uploadLoop u env p k (Suc a) st))"
  using assms
  by (subst uploadLoop.simps) (auto simp: uploadFile_def attemptOk_def split: option.splits prod.splits)

lemma uploadLoop_last:
  assumes "int a = maxRetries u" "\<not> attemptOk env st p a"
  shows "uploadLoop u env p k a st = ([Attempt a], st)"
  using assms
  by (subst uploadLoop.simps)
     (auto simp: uploadLoop_done uploadFile_def attemptOk_def split: option.splits prod.splits)

lemma uploadLoop_induct [consumes 0, case_names finished success cancelled last retry]:
  assumes fin: "\<And>a. \<not> int a \<le> maxRetries u \<Longrightarrow> P a"
    and suc: "\<And>a. int a \<le> maxRetries u \<Longrightarrow> attemptOk env st p a \<Longrightarrow> P a"
    and can: "\<And>a. int a < maxRetries u \<Longrightarrow> \<not> attemptOk env st p a \<Longrightarrow> ctxDone env a \<Longrightarrow> P a"
    and lst: "\<And>a. int a = maxRetries u \<Longrightarrow> \<not> attemptOk env st p a \<Longrightarrow> P a"
    and ret: "\<And>a. int a < maxRetries u \<Longrightarrow> \<not> attemptOk env st p a \<Longrightarrow> \<not> ctxDone env a \<Longrightarrow>
            P (Suc a) \<Longrightarrow> P a"
  shows "P a"
proof (induction "nat (maxRetries u + 1 - int a)" arbitrary: a rule: less_induct)
  case less
  show ?case
  proof (cases "int a \<le> maxRetries u")
    case False
    then show ?thesis by (rule fin)
  next
    case le: True
    show ?thesis
    proof (cases "attemptOk env st p a")
      case True
      with le show ?thesis by (rule suc)
    next
      case nok: False
      show ?thesis
      proof (cases "int a = maxRetries u")
        case True
        then show ?thesis using nok by (rule lst)
      next
        case False
        with le have lt: "int a < maxRetries u" by simp
        show ?thesis
        proof (cases "ctxDone env a")
          case True
          with lt nok show ?thesis by (rule can)
        next
          case False
          have "nat (maxRetries u + 1 - int (Suc a)) < nat (maxRetries u + 1 - int a)"
            using lt by simp
          then have "P (Suc a)" by (rule less)
          with lt nok False show ?thesis by (rule ret)
        qed
      qed
    qed
  qed
qed

lemma upt_shift: "[a..<a + Suc n] = a # [Suc a..<Suc a + n]"
  by (simp add: upt_conv_Cons del: upt_Suc)

lemma uploadLoop_attempts:
  "attemptsOf (fst (uploadLoop u env p k a st)) =
     [a..<a + length (attemptsOf (fst (uploadLoop u env p k a st)))] \<and>
   int (length (attemptsOf (fst (uploadLoop u env p k a st)))) \<le> max 0 (maxRetries u + 1 - int a)"
proof (induction a rule: uploadLoop_induct [of u _ env st p])
  case (retry a)
  let ?r = "uploadLoop u env p k (Suc a) st"
  have eq: "uploadLoop u env p k a st = (Attempt a # Sleep (backoff a) # fst ?r, snd ?r)"
    using retry.hyps by (intro uploadLoop_retry)
  have "attemptsOf (fst (uploadLoop u env p k a st)) = a # attemptsOf (fst ?r)"
    by (simp add: eq)
  also have "\<dots> = a # [Suc a..<Suc a + length (attemptsOf (fst ?r))]"
    using retry.IH by simp
  also have "\<dots> = [a..<a + Suc (length (attemptsOf (fst ?r)))]"
    by (rule upt_shift [symmetric])
  finally have "attemptsOf (fst (uploadLoop u env p k a st)) =
      [a..<a + length (attemptsOf (fst (uploadLoop u env p k a st)))]"
    by (simp add: eq del: upt_Suc)
  moreover have "int (length (attemptsOf (fst (uploadLoop u env p k a st)))) \<le>
      max 0 (maxRetries u + 1 - int a)"
    using retry.IH retry.hyps by (simp add: eq)
  ultimately show ?case ..
qed (simp_all add: uploadLoop_done uploadLoop_success uploadLoop_cancelled uploadLoop_last)

lemma uploadLoop_sleeps:
  "sleepsOf (fst (uploadLoop u env p k a st)) =
     map backoff [a..<a + length (sleepsOf (fst (uploadLoop u env p k a st)))] \<and>
   take (2 * length (sleepsOf (fst (uploadLoop u env p k a st)))) (fst (uploadLoop u env p k a st)) =
     concat (map (\<lambda>i. [Attempt i, Sleep (backoff i)])
       [a..<a + length (sleepsOf (fst (uploadLoop u env p k a st)))])"
proof (induction a rule: uploadLoop_induct [of u _ env st p])
  case (retry a)
  let ?r = "uploadLoop u env p k (Suc a) st"
  let ?n = "length (sleepsOf (fst ?r))"
  have eq: "uploadLoop u env p k a st = (Attempt a # Sleep (backoff a) # fst ?r, snd ?r)"
    using retry.hyps by (intro uploadLoop_retry)
  have len: "length (sleepsOf (fst (uploadLoop u env p k a st))) = Suc ?n"
    by (simp add: eq)
  have ih1: "sleepsOf (fst ?r) = map backoff [Suc a..<Suc a + ?n]"
    and ih2: "take (2 * ?n) (fst ?r) =
       concat (map (\<lambda>i. [Attempt i, Sleep (backoff i)]) [Suc a..<Suc a + ?n])"
    using retry.IH by simp_all
  have "sleepsOf (fst (uploadLoop u env p k a st)) = backoff a # sleepsOf (fst ?r)"
    by (simp add: eq)
  also have "\<dots> = map backoff (a # [Suc a..<Suc a + ?n])"
    using ih1 by simp
  finally have s: "sleepsOf (fst (uploadLoop u env p k a st)) = map backoff [a..<a + Suc ?n]"
    by (simp only: upt_shift)
  have "take (2 * Suc ?n) (fst (uploadLoop u env p k a st)) =
      Attempt a # Sleep (backoff a) # take (2 * ?n) (fst ?r)"
    by (simp add: eq)
  also have "\<dots> = concat (map (\<lambda>i. [Attempt i, Sleep (backoff i)]) (a # [Suc a..<Suc a + ?n]))"
    using ih2 by simp
  finally have t: "take (2 * Suc ?n) (fst (uploadLoop u env p k a st)) =
      concat (map (\<lambda>i. [Attempt i, Sleep (backoff i)]) [a..<a + Suc ?n])"
    by (simp only: upt_shift)
  show ?case unfolding len using s t by blast
qed (simp_all add: uploadLoop_done uploadLoop_success uploadLoop_cancelled uploadLoop_last)

lemma uploadLoop_sleep_iff:
  "i < length (attemptsOf (fst (uploadLoop u env p k a st))) \<Longrightarrow>
     (i < length (sleepsOf (fst (uploadLoop u env p k a st)))) =
     (\<not> attemptOk env st p (a + i) \<and> int (a + i) < maxRetries u)"
proof (induction a arbitrary: i rule: uploadLoop_induct [of u _ env st p])
  case (finished a)
  then show ?case by (simp add: uploadLoop_done)
next
  case (success a)
  then show ?case by (cases "deleteAfter u") (simp_all add: uploadLoop_success)
next
  case (cancelled a)
  then show ?case by (simp add: uploadLoop_cancelled)
next
  case (last a)
  then show ?case by (simp add: uploadLoop_last)
next
  case (retry a)
  show ?case
  proof (cases i)
    case 0
    with retry show ?thesis by (simp add: uploadLoop_retry)
  next
    case (Suc j)
    with retry.prems have "j < length (attemptsOf (fst (uploadLoop u env p k (Suc a) st)))"
      using retry.hyps by (simp add: uploadLoop_retry)
    from retry.IH[OF this] Suc retry.hyps show ?thesis by (simp add: uploadLoop_retry)
  qed
qed

lemma uploadLoop_files:
  "localFiles (snd (uploadLoop u env p k a st)) = localFiles st \<or>
   (deleteAfter u \<and> removeOk env \<and>
    localFiles (snd (uploadLoop u env p k a st)) = (localFiles st)(p := None) \<and>
    (\<exists>i. a \<le> i \<and> int i \<le> maxRetries u \<and> attemptOk env st p i \<and>
         remote (snd (uploadLoop u env p k a st)) k = localFiles st p \<and>
         Attempt i \<in> set (fst (uploadLoop u env p k a st)) \<and>
         last (fst (uploadLoop u env p k a st)) = Remove p))"
  (is "?A a \<or> ?B a")
proof (induction a rule: uploadLoop_induct [of u _ env st p])
  case (finished a)
  then show ?case by (simp add: uploadLoop_done)
next
  case (success a)
  show ?case
  proof (cases "deleteAfter u \<and> removeOk env")
    case True
    with success have "?B a"
      by (auto simp: uploadLoop_success removeLocal_def attemptOk_def)
    then show ?thesis ..
  next
    case False
    with success have "?A a"
      by (auto simp: uploadLoop_success removeLocal_def)
    then show ?thesis ..
  qed
next
  case (cancelled a)
  then show ?case by (simp add: uploadLoop_cancelled)
next
  case (last a)
  then show ?case by (simp add: uploadLoop_last)
next
  case (retry a)
  let ?r = "uploadLoop u env p k (Suc a) st"
  have eq: "uploadLoop u env p k a st = (Attempt a # Sleep (backoff a) # fst ?r, snd ?r)"
    using retry.hyps by (intro uploadLoop_retry)
  from retry.IH show ?case
  proof
    assume "?A (Suc a)"
    then have "?A a" by (simp add: eq)
    then show ?thesis ..
  next
    assume b: "?B (Suc a)"
    then obtain i where i: "Suc a \<le> i" "int i \<le> maxRetries u" "attemptOk env st p i"
      "remote (snd ?r) k = localFiles st p" "Attempt i \<in> set (fst ?r)" "last (fst ?r) = Remove p"
      by blast
    from i(5) have ne: "fst ?r \<noteq> []" by auto
    have "\<exists>i. a \<le> i \<and> int i \<le> maxRetries u \<and> attemptOk env st p i \<and>
         remote (snd (uploadLoop u env p k a st)) k = localFiles st p \<and>
         Attempt i \<in> set (fst (uploadLoop u env p k a st)) \<and>
         last (fst (uploadLoop u env p k a st)) = Remove p"
      using i ne by (intro exI[of _ i]) (simp add: eq)
    with b have "?B a" by (simp add: eq)
    then show ?thesis ..
  qed
qed

lemma uploadLoop_Remove:
  "Remove q \<in> set (fst (uploadLoop u env p k a st)) \<Longrightarrow>
     q = p \<and> deleteAfter u \<and>
     (\<exists>i. a \<le> i \<and> int i \<le> maxRetries u \<and> attemptOk env st p i \<and>
          Attempt i \<in> set (fst (uploadLoop u env p k a st)) \<and>
          remote (snd (uploadLoop u env p k a st)) k = localFiles st p)"
proof (induction a rule: uploadLoop_induct [of u _ env st p])
  case (finished a)
  then show ?case by (simp add: uploadLoop_done)
next
  case (success a)
  then have d: "deleteAfter u" "q = p"
    by (auto simp: uploadLoop_success split: if_splits)
  with success have "remote (snd (uploadLoop u env p k a st)) k = localFiles st p"
    by (auto simp: uploadLoop_success removeLocal_def attemptOk_def)
  moreover from d success have "Attempt a \<in> set (fst (uploadLoop u env p k a st))"
    by (simp add: uploadLoop_success)
  ultimately show ?case using d success.hyps by blast
next
  case (cancelled a)
  then show ?case by (simp add: uploadLoop_cancelled)
next
  case (last a)
  then show ?case by (simp add: uploadLoop_last)
next
  case (retry a)
  let ?r = "uploadLoop u env p k (Suc a) st"
  have eq: "uploadLoop u env p k a st = (Attempt a # Sleep (backoff a) # fst ?r, snd ?r)"
    using retry.hyps by (intro uploadLoop_retry)
  from retry.prems have "Remove q \<in> set (fst ?r)" by (simp add: eq)
  from retry.IH[OF this] obtain i where i: "q = p" "deleteAfter u" "Suc a \<le> i"
    "int i \<le> maxRetries u" "attemptOk env st p i" "Attempt i \<in> set (fst ?r)"
    "remote (snd ?r) k = localFiles st p"
    by blast
  have "\<exists>i. a \<le> i \<and> int i \<le> maxRetries u \<and> attemptOk env st p i \<and>
          Attempt i \<in> set (fst (uploadLoop u env p k a st)) \<and>
          remote (snd (uploadLoop u env p k a st)) k = localFiles st p"
    using i by (intro exI[of _ i]) (simp add: eq)
  with i show ?case by simp
qed

lemma uploadLoop_remote_frame:
  "k' \<noteq> k \<Longrightarrow> remote (snd (uploadLoop u env p k a st)) k' = remote st k'"
proof (induction a rule: uploadLoop_induct [of u _ env st p])
  case (success a)
  then show ?case by (simp add: uploadLoop_success removeLocal_def)
next
  case (retry a)
  then show ?case by (simp add: uploadLoop_retry)
qed (simp_all add: uploadLoop_done uploadLoop_cancelled uploadLoop_last)

subsection \<open>The remote key\<close>

lemma generateS3Key_tokens:
  assumes parts: "splitOn (CHR ''_'') (TrimSuffix fname ''.jsonl'') =
                    source # middle @ [dateStr, timeStr]"
    and mid: "middle \<noteq> []"
  shows "generateS3Key fname =
           (case timeParse (dateStr @ ''_'' @ timeStr) of
              None \<Rightarrow> Inl (ParseTimestamp (dateStr @ ''_'' @ timeStr))
            | Some t \<Rightarrow>
                Inr (padInt 4 (Year t) @ ''/'' @ padInt 2 (Month t) @ ''/'' @
                     padInt 2 (Day t) @ ''/'' @ source @ ''/'' @ joinWith ''_'' middle @
                     ''/'' @ fname))"
proof -
  let ?parts = "source # middle @ [dateStr, timeStr]"
  have len: "length ?parts = length middle + 3" by simp
  from mid have ge: "\<not> length ?parts < 4" by (cases middle) simp_all
  have d: "?parts ! (length ?parts - 2) = dateStr"
    by (simp add: nth_append)
  have t: "?parts ! (length ?parts - 1) = timeStr"
    by (simp add: nth_append)
  have c: "drop 1 (take (length ?parts - 2) ?parts) = middle"
    by simp
  have p: "?parts ! 0 = source" by simp
  show ?thesis
    unfolding generateS3Key_def Let_def parts
    by (simp only: ge d t c p if_False)
qed

text \<open>
  C2. For a filename whose name without the extension splits at underscores into a
  first token, at least one middle token, a date token \<open>YYYYMMDD\<close> and a time token
  \<open>HHMM\<close>, the key is \<open>YYYY/MM/DD/<first token>/<middle tokens joined by
  underscores>/<filename>\<close>, the date fields being the digits of the date token. The two
  names of the specification give the keys it states; the stream key
  \<open>some_long_name\<close> comes back with its underscores.
\<close>

theorem generateS3Key_layout:
  assumes "splitOn (CHR ''_'') (TrimSuffix fname ''.jsonl'') =
             source # middle @ [dateStr, timeStr]"
    and "middle \<noteq> []"
    and "isDateToken dateStr"
    and "isTimeToken timeStr"
  shows "generateS3Key fname =
           Inr (take 4 dateStr @ ''/'' @ take 2 (drop 4 dateStr) @ ''/'' @ drop 6 dateStr @
                ''/'' @ source @ ''/'' @ joinWith ''_'' middle @ ''/'' @ fname) \<and>
         generateS3Key ''twitch_ludwig_20251230_1030.jsonl'' =
           Inr ''2025/12/30/twitch/ludwig/twitch_ludwig_20251230_1030.jsonl'' \<and>
         generateS3Key ''twitch_some_long_name_20251230_1030.jsonl'' =
           Inr ''2025/12/30/twitch/some_long_name/twitch_some_long_name_20251230_1030.jsonl''"
proof -
  from timeParse_tokens[OF assms(3,4)] obtain tm where
    tm: "timeParse (dateStr @ ''_'' @ timeStr) = Some tm"
      "padInt 4 (Year tm) = take 4 dateStr" "padInt 2 (Month tm) = take 2 (drop 4 dateStr)"
      "padInt 2 (Day tm) = drop 6 dateStr"
    by blast
  have general: "generateS3Key fname =
      Inr (take 4 dateStr @ ''/'' @ take 2 (drop 4 dateStr) @ ''/'' @ drop 6 dateStr @
           ''/'' @ source @ ''/'' @ joinWith ''_'' middle @ ''/'' @ fname)"
    by (simp only: generateS3Key_tokens[OF assms(1,2)] tm option.case)
  have ludwig: "generateS3Key ''twitch_ludwig_20251230_1030.jsonl'' =
      Inr ''2025/12/30/twitch/ludwig/twitch_ludwig_20251230_1030.jsonl''"
    by (simp add: generateS3Key_def TrimSuffix_def HasSuffix_def timeParse_def atoi_def
          isDigitChar_def digitVal_def daysIn_def isLeap_def padInt_def digitChar_def Let_def)
  have long: "generateS3Key ''twitch_some_long_name_20251230_1030.jsonl'' =
      Inr ''2025/12/30/twitch/some_long_name/twitch_some_long_name_20251230_1030.jsonl''"
    by (simp add: generateS3Key_def TrimSuffix_def HasSuffix_def timeParse_def atoi_def
          isDigitChar_def digitVal_def daysIn_def isLeap_def padInt_def digitChar_def Let_def)
  from general ludwig long show ?thesis by blast
qed

theorem generateS3Key_layout_witness:
  "splitOn (CHR ''_'') (TrimSuffix ''kick_x_q_c_20240229_2359.jsonl'' ''.jsonl'') =
     ''kick'' # [''x'', ''q'', ''c''] @ [''20240229'', ''2359''] \<and>
   isDateToken ''20240229'' \<and> isTimeToken ''2359'' \<and>
   generateS3Key ''kick_x_q_c_20240229_2359.jsonl'' =
     Inr ''2024/02/29/kick/x_q_c/kick_x_q_c_20240229_2359.jsonl''"
proof -
  have s: "splitOn (CHR ''_'') (TrimSuffix ''kick_x_q_c_20240229_2359.jsonl'' ''.jsonl'') =
     ''kick'' # [''x'', ''q'', ''c''] @ [''20240229'', ''2359'']"
    by (simp add: TrimSuffix_def HasSuffix_def)
  have m: "[''x'', ''q'', ''c''] \<noteq> []" by simp
  have d: "isDateToken ''20240229''"
    by (simp add: isDigitChar_def digitVal_def daysIn_def isLeap_def)
  have t: "isTimeToken ''2359''"
    by (simp add: isDigitChar_def digitVal_def)
  from generateS3Key_layout[OF s m d t] s d t show ?thesis by simp
qed

text \<open>
  C6. A fname with fewer than four underscore-separated tokens, or whose last two
  tokens are not a date token and a time token, has no key: \<open>generateS3Key\<close> returns an
  error, and \<open>uploadWithRetry\<close> returns at once, with no upload attempt, no backoff and
  no removal, the local file and the bucket as they were.
\<close>

theorem malformed_filename_is_skipped:
  assumes "parts = splitOn (CHR ''_'') (TrimSuffix (Base localPath) ''.jsonl'')"
    and "length parts < 4 \<or>
         \<not> isDateToken (parts ! (length parts - 2)) \<or>
         \<not> isTimeToken (parts ! (length parts - 1))"
  shows "generateS3Key (Base localPath) =
           (if length parts < 4 then Inl (InvalidFilenameFormat (Base localPath))
            else Inl (ParseTimestamp
                   (parts ! (length parts - 2) @ ''_'' @ parts ! (length parts - 1)))) \<and>
         uploadWithRetry u env st localPath = ([], st)"
proof -
  have key: "generateS3Key (Base localPath) =
           (if length parts < 4 then Inl (InvalidFilenameFormat (Base localPath))
            else Inl (ParseTimestamp
                   (parts ! (length parts - 2) @ ''_'' @ parts ! (length parts - 1))))"
  proof (cases "length parts < 4")
    case True
    then show ?thesis by (simp add: generateS3Key_def assms(1) Let_def)
  next
    case False
    with assms(2) have
      "\<not> (isDateToken (parts ! (length parts - 2)) \<and> isTimeToken (parts ! (length parts - 1)))"
      by blast
    then have "timeParse (parts ! (length parts - 2) @ ''_'' @ parts ! (length parts - 1)) = None"
      using timeParse_Some_tokens by (cases "timeParse (parts ! (length parts - 2) @ ''_'' @ parts ! (length parts - 1))") blast+
    with False show ?thesis
      unfolding generateS3Key_def Let_def assms(1) [symmetric] by simp
  qed
  then have "uploadWithRetry u env st localPath = ([], st)"
    by (simp add: uploadWithRetry_def Let_def split: if_splits)
  with key show ?thesis ..
qed

theorem malformed_filename_is_skipped_witness:
  "length (splitOn (CHR ''_'') (TrimSuffix (Base ''data/twitch_20251230_1030.jsonl'') ''.jsonl'')) < 4 \<and>
   generateS3Key (Base ''data/twitch_20251230_1030.jsonl'') =
     Inl (InvalidFilenameFormat ''twitch_20251230_1030.jsonl'') \<and>
   uploadWithRetry \<lparr>bucket = ''archive'', deleteAfter = True, maxRetries = 3\<rparr>
     \<lparr>putOk = (\<lambda>i. True), ctxDone = (\<lambda>i. False), removeOk = True\<rparr>
     \<lparr>localFiles = [''data/twitch_20251230_1030.jsonl'' \<mapsto> ''{}''], remote = Map.empty\<rparr>
     ''data/twitch_20251230_1030.jsonl'' =
     ([], \<lparr>localFiles = [''data/twitch_20251230_1030.jsonl'' \<mapsto> ''{}''], remote = Map.empty\<rparr>) \<and>
   \<not> isDateToken ''20251330'' \<and>
   generateS3Key (Base ''data/twitch_ludwig_20251330_1030.jsonl'') =
     Inl (ParseTimestamp ''20251330_1030'')"
proof -
  have b1: "Base ''data/twitch_20251230_1030.jsonl'' = ''twitch_20251230_1030.jsonl''"
    by (simp add: Base_def)
  have p1: "splitOn (CHR ''_'') (TrimSuffix (Base ''data/twitch_20251230_1030.jsonl'') ''.jsonl'') =
      [''twitch'', ''20251230'', ''1030'']"
    by (simp add: b1 TrimSuffix_def HasSuffix_def)
  have l1: "length [''twitch'', ''20251230'', ''1030''] < 4 \<or>
         \<not> isDateToken ([''twitch'', ''20251230'', ''1030''] ! (length [''twitch'', ''20251230'', ''1030''] - 2)) \<or>
         \<not> isTimeToken ([''twitch'', ''20251230'', ''1030''] ! (length [''twitch'', ''20251230'', ''1030''] - 1))"
    by simp
  have b2: "Base ''data/twitch_ludwig_20251330_1030.jsonl'' = ''twitch_ludwig_20251330_1030.jsonl''"
    by (simp add: Base_def)
  have p2: "splitOn (CHR ''_'') (TrimSuffix (Base ''data/twitch_ludwig_20251330_1030.jsonl'') ''.jsonl'') =
      [''twitch'', ''ludwig'', ''20251330'', ''1030'']"
    by (simp add: b2 TrimSuffix_def HasSuffix_def)
  have nd: "\<not> isDateToken ''20251330''"
    by (simp add: isDigitChar_def digitVal_def)
  have l2: "length [''twitch'', ''ludwig'', ''20251330'', ''1030''] < 4 \<or>
         \<not> isDateToken ([''twitch'', ''ludwig'', ''20251330'', ''1030''] ! (length [''twitch'', ''ludwig'', ''20251330'', ''1030''] - 2)) \<or>
         \<not> isTimeToken ([''twitch'', ''ludwig'', ''20251330'', ''1030''] ! (length [''twitch'', ''ludwig'', ''20251330'', ''1030''] - 1))"
    using nd by simp
  note w1 = malformed_filename_is_skipped[OF p1[symmetric] l1,
      of "\<lparr>bucket = ''archive'', deleteAfter = True, maxRetries = 3\<rparr>"
         "\<lparr>putOk = (\<lambda>i. True), ctxDone = (\<lambda>i. False), removeOk = True\<rparr>"
         "\<lparr>localFiles = [''data/twitch_20251230_1030.jsonl'' \<mapsto> ''{}''], remote = Map.empty\<rparr>"]
  note w2 = malformed_filename_is_skipped[OF p2[symmetric] l2, of undefined undefined undefined]
  from w1 w2 p1 nd show ?thesis by (simp add: b1 b2)
qed

subsection \<open>Attempts and backoff\<close>

lemma uploadWithRetry_key:
  "generateS3Key (Base localPath) = Inr s3Key \<Longrightarrow>
     uploadWithRetry u env st localPath = uploadLoop u env localPath s3Key 0 st"
  by (simp add: uploadWithRetry_def Let_def)

lemma uploadWithRetry_nokey:
  "generateS3Key (Base localPath) = Inl err \<Longrightarrow> uploadWithRetry u env st localPath = ([], st)"
  by (simp add: uploadWithRetry_def Let_def)

text \<open>
  C3, amended. With \<open>0 \<le> maxRetries\<close> (and \<open>maxRetries\<close> below the largest
  \<open>int\<close>), a run makes at most \<open>maxRetries + 1\<close> attempts, numbered from 0; the run
  is a sequence of pairs (attempt \<open>i\<close>, sleep of \<open>backoff i\<close>) followed by at most one
  more attempt and the removal; attempt \<open>i\<close> is followed by a sleep exactly when it
  failed and \<open>i < maxRetries\<close>; and the sleep after attempt \<open>i\<close> is \<open>2 ^ i\<close> seconds
  for \<open>i \<le> 33\<close>. With \<open>maxRetries = 3\<close> and a store that fails twice and then
  succeeds, the run is attempt 0, 1 s, attempt 1, 2 s, attempt 2, and then the removal when
  delete-after-upload is set.
\<close>

theorem uploadWithRetry_attempts_and_backoff:
  assumes "0 \<le> maxRetries u"
    and "maxRetries u < 9223372036854775807"
    and "uploadWithRetry u env st localPath = (tr, st')"
  shows "length (attemptsOf tr) \<le> nat (maxRetries u) + 1 \<and>
         attemptsOf tr = [0..<length (attemptsOf tr)] \<and>
         sleepsOf tr = map backoff [0..<length (sleepsOf tr)] \<and>
         take (2 * length (sleepsOf tr)) tr =
           concat (map (\<lambda>i. [Attempt i, Sleep (backoff i)]) [0..<length (sleepsOf tr)]) \<and>
         (\<forall>i. i < length (attemptsOf tr) \<longrightarrow>
            (i < length (sleepsOf tr)) =
            (\<not> attemptOk env st localPath i \<and> int i < maxRetries u)) \<and>
         (\<forall>i. i < length (sleepsOf tr) \<longrightarrow> i \<le> 33 \<longrightarrow>
            sleepsOf tr ! i = 2 ^ i * 1000000000) \<and>
         (maxRetries u = 3 \<and> (\<exists>s3Key. generateS3Key (Base localPath) = Inr s3Key) \<and>
          localFiles st localPath \<noteq> None \<and>
          \<not> putOk env 0 \<and> \<not> putOk env 1 \<and> putOk env 2 \<and>
          \<not> ctxDone env 0 \<and> \<not> ctxDone env 1 \<longrightarrow>
            tr = [Attempt 0, Sleep 1000000000, Attempt 1, Sleep 2000000000, Attempt 2] @
                 (if deleteAfter u then [Remove localPath] else []) \<and>
            localFiles st' =
              (if deleteAfter u \<and> removeOk env then (localFiles st)(localPath := None)
               else localFiles st))"
proof (cases "generateS3Key (Base localPath)")
  case (Inl err)
  with assms(3) have "tr = []" by (simp add: uploadWithRetry_nokey)
  with Inl show ?thesis by simp
next
  case (Inr k)
  let ?r = "uploadLoop u env localPath k 0 st"
  from Inr assms(3) have r: "?r = (tr, st')" by (simp add: uploadWithRetry_key)
  then have tr: "tr = fst ?r" and st': "st' = snd ?r" by simp_all
  from uploadLoop_attempts[of u env localPath k 0 st] assms(1)
  have a: "attemptsOf tr = [0..<length (attemptsOf tr)]"
    and n': "int (length (attemptsOf tr)) \<le> maxRetries u + 1"
    by (simp_all add: tr)
  from n' assms(1) have n: "length (attemptsOf tr) \<le> nat (maxRetries u) + 1"
    by linarith
  from uploadLoop_sleeps[of u env localPath k 0 st]
  have s: "sleepsOf tr = map backoff [0..<length (sleepsOf tr)]"
    and t: "take (2 * length (sleepsOf tr)) tr =
           concat (map (\<lambda>i. [Attempt i, Sleep (backoff i)]) [0..<length (sleepsOf tr)])"
    by (simp_all add: tr)
  have f: "\<forall>i. i < length (attemptsOf tr) \<longrightarrow>
            (i < length (sleepsOf tr)) =
            (\<not> attemptOk env st localPath i \<and> int i < maxRetries u)"
    using uploadLoop_sleep_iff[of _ u env localPath k 0 st] by (simp add: tr)
  have b: "\<forall>i. i < length (sleepsOf tr) \<longrightarrow> i \<le> 33 \<longrightarrow> sleepsOf tr ! i = 2 ^ i * 1000000000"
  proof (intro allI impI)
    fix i assume i: "i < length (sleepsOf tr)" "i \<le> 33"
    have "sleepsOf tr ! i = map backoff [0..<length (sleepsOf tr)] ! i"
      using s by simp
    also have "\<dots> = backoff i" using i by simp
    finally show "sleepsOf tr ! i = 2 ^ i * 1000000000"
      using i by (simp add: backoff_small)
  qed
  have sc: "maxRetries u = 3 \<and> (\<exists>s3Key. generateS3Key (Base localPath) = Inr s3Key) \<and>
          localFiles st localPath \<noteq> None \<and>
          \<not> putOk env 0 \<and> \<not> putOk env 1 \<and> putOk env 2 \<and>
          \<not> ctxDone env 0 \<and> \<not> ctxDone env 1 \<longrightarrow>
            tr = [Attempt 0, Sleep 1000000000, Attempt 1, Sleep 2000000000, Attempt 2] @
                 (if deleteAfter u then [Remove localPath] else []) \<and>
            localFiles st' =
              (if deleteAfter u \<and> removeOk env then (localFiles st)(localPath := None)
               else localFiles st)"
  proof (intro impI, elim conjE)
    assume h: "maxRetries u = 3" "localFiles st localPath \<noteq> None"
      "\<not> putOk env 0" "\<not> putOk env 1" "putOk env 2" "\<not> ctxDone env 0" "\<not> ctxDone env 1"
    have r0: "?r = (Attempt 0 # Sleep (backoff 0) # fst (uploadLoop u env localPath k (Suc 0) st),
                    snd (uploadLoop u env localPath k (Suc 0) st))"
      using h by (intro uploadLoop_retry) (simp_all add: attemptOk_def)
    have r1: "uploadLoop u env localPath k (Suc 0) st =
        (Attempt 1 # Sleep (backoff 1) # fst (uploadLoop u env localPath k (Suc (Suc 0)) st),
         snd (uploadLoop u env localPath k (Suc (Suc 0)) st))"
      using h uploadLoop_retry[of "Suc 0" u env st localPath k] by (simp add: attemptOk_def)
    have r2: "uploadLoop u env localPath k (Suc (Suc 0)) st =
           (if deleteAfter u
            then ([Attempt 2, Remove localPath],
                  removeLocal env localPath
                    (st\<lparr>remote := (remote st)(k \<mapsto> the (localFiles st localPath))\<rparr>))
            else ([Attempt 2], st\<lparr>remote := (remote st)(k \<mapsto> the (localFiles st localPath))\<rparr>))"
      using h uploadLoop_success[of "Suc (Suc 0)" u env st localPath k]
      by (simp add: attemptOk_def numeral_2_eq_2)
    have b0: "backoff 0 = 1000000000" and b1: "backoff (Suc 0) = 2000000000"
      by (simp_all add: backoff_def)
    show "tr = [Attempt 0, Sleep 1000000000, Attempt 1, Sleep 2000000000, Attempt 2] @
                 (if deleteAfter u then [Remove localPath] else []) \<and>
            localFiles st' =
              (if deleteAfter u \<and> removeOk env then (localFiles st)(localPath := None)
               else localFiles st)"
      unfolding tr st' r0 r1 r2 by (simp add: b0 b1 removeLocal_def)
  qed
  from n a s t f b sc show ?thesis by blast
qed

theorem uploadWithRetry_attempts_and_backoff_witness:
  "uploadWithRetry \<lparr>bucket = ''archive'', deleteAfter = True, maxRetries = 3\<rparr>
     \<lparr>putOk = (\<lambda>i. 2 \<le> i), ctxDone = (\<lambda>i. False), removeOk = True\<rparr>
     \<lparr>localFiles = [''data/twitch_ludwig_20251230_1030.jsonl'' \<mapsto> ''{}''], remote = Map.empty\<rparr>
     ''data/twitch_ludwig_20251230_1030.jsonl'' =
   ([Attempt 0, Sleep 1000000000, Attempt 1, Sleep 2000000000, Attempt 2,
     Remove ''data/twitch_ludwig_20251230_1030.jsonl''],
    \<lparr>localFiles = Map.empty,
     remote = [''2025/12/30/twitch/ludwig/twitch_ludwig_20251230_1030.jsonl'' \<mapsto> ''{}'']\<rparr>)"
proof -
  let ?u = "\<lparr>bucket = ''archive'', deleteAfter = True, maxRetries = 3\<rparr>"
  let ?env = "\<lparr>putOk = (\<lambda>i. 2 \<le> i), ctxDone = (\<lambda>i. False), removeOk = True\<rparr>"
  let ?p = "''data/twitch_ludwig_20251230_1030.jsonl''"
  let ?st = "\<lparr>localFiles = [?p \<mapsto> ''{}''], remote = Map.empty\<rparr>"
  obtain tr st' where run: "uploadWithRetry ?u ?env ?st ?p = (tr, st')"
    by (cases "uploadWithRetry ?u ?env ?st ?p")
  have b: "Base ?p = ''twitch_ludwig_20251230_1030.jsonl''"
    by (simp add: Base_def)
  have k: "generateS3Key (Base ?p) =
      Inr ''2025/12/30/twitch/ludwig/twitch_ludwig_20251230_1030.jsonl''"
    unfolding b
    by (simp add: generateS3Key_def TrimSuffix_def HasSuffix_def timeParse_def atoi_def
          isDigitChar_def digitVal_def daysIn_def isLeap_def padInt_def digitChar_def Let_def)
  have h1: "0 \<le> maxRetries ?u" and h2: "maxRetries ?u < 9223372036854775807" by simp_all
  from uploadWithRetry_attempts_and_backoff[OF h1 h2 run] k
  have tr: "tr = [Attempt 0, Sleep 1000000000, Attempt 1, Sleep 2000000000, Attempt 2,
     Remove ?p]" and lf: "localFiles st' = Map.empty"
    by simp_all
  have "remote st' = [''2025/12/30/twitch/ludwig/twitch_ludwig_20251230_1030.jsonl'' \<mapsto> ''{}'']"
  proof -
    let ?k = "''2025/12/30/twitch/ludwig/twitch_ludwig_20251230_1030.jsonl''"
    have "st' = snd (uploadLoop ?u ?env ?p ?k 0 ?st)"
      using run k by (simp add: uploadWithRetry_key)
    also have "uploadLoop ?u ?env ?p ?k 0 ?st =
        (Attempt 0 # Sleep (backoff 0) # fst (uploadLoop ?u ?env ?p ?k (Suc 0) ?st),
         snd (uploadLoop ?u ?env ?p ?k (Suc 0) ?st))"
      by (intro uploadLoop_retry) (simp_all add: attemptOk_def)
    also have "uploadLoop ?u ?env ?p ?k (Suc 0) ?st =
        (Attempt (Suc 0) # Sleep (backoff (Suc 0)) # fst (uploadLoop ?u ?env ?p ?k (Suc (Suc 0)) ?st),
         snd (uploadLoop ?u ?env ?p ?k (Suc (Suc 0)) ?st))"
      by (intro uploadLoop_retry) (simp_all add: attemptOk_def)
    also have "uploadLoop ?u ?env ?p ?k (Suc (Suc 0)) ?st =
        ([Attempt (Suc (Suc 0)), Remove ?p],
         removeLocal ?env ?p (?st\<lparr>remote := (remote ?st)(?k \<mapsto> the (localFiles ?st ?p))\<rparr>))"
      using uploadLoop_success[of "Suc (Suc 0)" ?u ?env ?st ?p ?k]
      by (simp add: attemptOk_def)
    finally show ?thesis by (simp add: removeLocal_def)
  qed
  with lf have "st' = \<lparr>localFiles = Map.empty,
     remote = [''2025/12/30/twitch/ludwig/twitch_ludwig_20251230_1030.jsonl'' \<mapsto> ''{}'']\<rparr>"
    by (cases st') simp
  with tr run show ?thesis by simp
qed

lemma sleepsOf_append: "sleepsOf (xs @ ys) = sleepsOf xs @ sleepsOf ys"
  by (simp add: sleepsOf_def)

lemma attemptsOf_append: "attemptsOf (xs @ ys) = attemptsOf xs @ attemptsOf ys"
  by (simp add: attemptsOf_def)

lemma sleepsOf_pairs:
  "sleepsOf (concat (map (\<lambda>i. [Attempt i, Sleep (backoff i)]) is)) = map backoff is"
  by (induction "is") simp_all

lemma attemptsOf_pairs:
  "attemptsOf (concat (map (\<lambda>i. [Attempt i, Sleep (backoff i)]) is)) = is"
  by (induction "is") simp_all

lemma uploadLoop_all_fail:
  assumes nok: "\<And>i. \<not> attemptOk env st p i" and nc: "\<And>i. \<not> ctxDone env i"
  shows "int a \<le> maxRetries u \<Longrightarrow>
           fst (uploadLoop u env p k a st) =
             concat (map (\<lambda>i. [Attempt i, Sleep (backoff i)]) [a..<nat (maxRetries u)]) @
             [Attempt (nat (maxRetries u))]"
proof (induction a rule: uploadLoop_induct [of u _ env st p])
  case (finished a)
  then show ?case by simp
next
  case (success a)
  with nok show ?case by simp
next
  case (cancelled a)
  with nc show ?case by simp
next
  case (last a)
  then have "nat (maxRetries u) = a" by simp
  with last show ?case by (simp add: uploadLoop_last)
next
  case (retry a)
  let ?r = "uploadLoop u env p k (Suc a) st"
  have eq: "uploadLoop u env p k a st = (Attempt a # Sleep (backoff a) # fst ?r, snd ?r)"
    using retry.hyps by (intro uploadLoop_retry)
  from retry.hyps have lt: "a < nat (maxRetries u)" by simp
  then have u: "[a..<nat (maxRetries u)] = a # [Suc a..<nat (maxRetries u)]"
    by (rule upt_conv_Cons)
  from retry.hyps have "int (Suc a) \<le> maxRetries u" by simp
  from retry.IH[OF this] show ?case by (simp add: eq u)
qed

text \<open>
  The claim as the specification states it fails at attempt 34: with
  \<open>maxRetries = 35\<close> and a store that always fails, the duration handed to
  \<open>time.After\<close> after attempt 34 is the wrapped 64-bit product, a negative number of
  nanoseconds, not \<open>2 ^ 34\<close> seconds.
\<close>

theorem backoff_wraps_counterexample:
  "sleepsOf (fst (uploadWithRetry \<lparr>bucket = ''archive'', deleteAfter = True, maxRetries = 35\<rparr>
     \<lparr>putOk = (\<lambda>i. False), ctxDone = (\<lambda>i. False), removeOk = True\<rparr>
     \<lparr>localFiles = [''data/twitch_ludwig_20251230_1030.jsonl'' \<mapsto> ''{}''], remote = Map.empty\<rparr>
     ''data/twitch_ludwig_20251230_1030.jsonl'')) ! 34 = - 1266874889709551616 \<and>
   sleepsOf (fst (uploadWithRetry \<lparr>bucket = ''archive'', deleteAfter = True, maxRetries = 35\<rparr>
     \<lparr>putOk = (\<lambda>i. False), ctxDone = (\<lambda>i. False), removeOk = True\<rparr>
     \<lparr>localFiles = [''data/twitch_ludwig_20251230_1030.jsonl'' \<mapsto> ''{}''], remote = Map.empty\<rparr>
     ''data/twitch_ludwig_20251230_1030.jsonl'')) ! 34 \<noteq> 2 ^ 34 * 1000000000 \<and>
   length (attemptsOf (fst (uploadWithRetry \<lparr>bucket = ''archive'', deleteAfter = True, maxRetries = 35\<rparr>
     \<lparr>putOk = (\<lambda>i. False), ctxDone = (\<lambda>i. False), removeOk = True\<rparr>
     \<lparr>localFiles = [''data/twitch_ludwig_20251230_1030.jsonl'' \<mapsto> ''{}''], remote = Map.empty\<rparr>
     ''data/twitch_ludwig_20251230_1030.jsonl''))) = 36"
proof -
  let ?u = "\<lparr>bucket = ''archive'', deleteAfter = True, maxRetries = 35\<rparr>"
  let ?env = "\<lparr>putOk = (\<lambda>i. False), ctxDone = (\<lambda>i. False), removeOk = True\<rparr>"
  let ?p = "''data/twitch_ludwig_20251230_1030.jsonl''"
  let ?st = "\<lparr>localFiles = [?p \<mapsto> ''{}''], remote = Map.empty\<rparr>"
  let ?k = "''2025/12/30/twitch/ludwig/twitch_ludwig_20251230_1030.jsonl''"
  have b: "Base ?p = ''twitch_ludwig_20251230_1030.jsonl''"
    by (simp add: Base_def)
  have k: "generateS3Key (Base ?p) = Inr ?k"
    unfolding b
    by (simp add: generateS3Key_def TrimSuffix_def HasSuffix_def timeParse_def atoi_def
          isDigitChar_def digitVal_def daysIn_def isLeap_def padInt_def digitChar_def Let_def)
  have run: "uploadWithRetry ?u ?env ?st ?p = uploadLoop ?u ?env ?p ?k 0 ?st"
    using k by (rule uploadWithRetry_key)
  have "fst (uploadLoop ?u ?env ?p ?k 0 ?st) =
      concat (map (\<lambda>i. [Attempt i, Sleep (backoff i)]) [0..<nat (maxRetries ?u)]) @
      [Attempt (nat (maxRetries ?u))]"
    by (rule uploadLoop_all_fail) (simp_all add: attemptOk_def)
  then have tr: "fst (uploadWithRetry ?u ?env ?st ?p) =
      concat (map (\<lambda>i. [Attempt i, Sleep (backoff i)]) [0..<35]) @ [Attempt 35]"
    by (simp only: run) simp
  have s: "sleepsOf (fst (uploadWithRetry ?u ?env ?st ?p)) = map backoff [0..<35]"
    unfolding tr sleepsOf_append sleepsOf_pairs by simp
  have a: "attemptsOf (fst (uploadWithRetry ?u ?env ?st ?p)) = [0..<35] @ [35]"
    unfolding tr attemptsOf_append attemptsOf_pairs by simp
  have v: "map backoff [0..<35] ! 34 = backoff 34"
    by (simp del: upt_Suc)
  have w: "backoff 34 = - 1266874889709551616"
    by (simp add: backoff_def)
  have l: "length ([0..<35] @ [35::nat]) = 36" by simp
  show ?thesis
    unfolding s a v w l by simp
qed

subsection \<open>Removal of the local file\<close>

lemma uploadLoop_Remove_last:
  "Remove q \<in> set (fst (uploadLoop u env p k a st)) \<Longrightarrow>
     last (fst (uploadLoop u env p k a st)) = Remove q"
proof (induction a rule: uploadLoop_induct [of u _ env st p])
  case (finished a)
  then show ?case by (simp add: uploadLoop_done)
next
  case (success a)
  then show ?case by (cases "deleteAfter u") (simp_all add: uploadLoop_success)
next
  case (cancelled a)
  then show ?case by (simp add: uploadLoop_cancelled)
next
  case (last a)
  then show ?case by (simp add: uploadLoop_last)
next
  case (retry a)
  let ?r = "uploadLoop u env p k (Suc a) st"
  have eq: "uploadLoop u env p k a st = (Attempt a # Sleep (backoff a) # fst ?r, snd ?r)"
    using retry.hyps by (intro uploadLoop_retry)
  from retry.prems have m: "Remove q \<in> set (fst ?r)" by (simp add: eq)
  then have "fst ?r \<noteq> []" by auto
  with retry.IH[OF m] show ?case by (simp add: eq)
qed

text \<open>
  C4. A run of \<open>uploadWithRetry\<close> leaves the local directory as it was, or it has removed
  exactly the uploaded file, and then delete-after-upload is set and an attempt of the run
  succeeded, which put the file's content in the bucket under the derived key.
  \<open>os.Remove\<close> is called only in that case. Nothing is removed when every attempt
  fails, when no key can be derived, or when the run ends in an interrupted backoff.
\<close>

theorem local_file_removed_only_after_confirmed_upload:
  assumes "uploadWithRetry u env st localPath = (tr, st')"
  shows "(localFiles st' = localFiles st \<or>
          (deleteAfter u \<and> localFiles st' = (localFiles st)(localPath := None) \<and>
           (\<exists>i s3Key. int i \<le> maxRetries u \<and> attemptOk env st localPath i \<and>
              Attempt i \<in> set tr \<and> generateS3Key (Base localPath) = Inr s3Key \<and>
              remote st' s3Key = localFiles st localPath))) \<and>
         (\<forall>q. Remove q \<in> set tr \<longrightarrow>
            q = localPath \<and> deleteAfter u \<and>
            (\<exists>i. int i \<le> maxRetries u \<and> attemptOk env st localPath i \<and>
               Attempt i \<in> set tr)) \<and>
         ((\<forall>i. int i \<le> maxRetries u \<longrightarrow> \<not> attemptOk env st localPath i) \<longrightarrow>
            localFiles st' = localFiles st \<and> (\<forall>q. Remove q \<notin> set tr)) \<and>
         ((\<exists>err. generateS3Key (Base localPath) = Inl err) \<longrightarrow> st' = st \<and> tr = []) \<and>
         ((\<exists>d. tr \<noteq> [] \<and> last tr = Sleep d) \<longrightarrow>
            localFiles st' = localFiles st \<and> (\<forall>q. Remove q \<notin> set tr))"
proof (cases "generateS3Key (Base localPath)")
  case (Inl err)
  with assms have "tr = []" "st' = st" by (simp_all add: uploadWithRetry_nokey)
  then show ?thesis by simp
next
  case (Inr k)
  let ?r = "uploadLoop u env localPath k 0 st"
  from Inr assms have r: "?r = (tr, st')" by (simp add: uploadWithRetry_key)
  then have tr: "tr = fst ?r" and st': "st' = snd ?r" by simp_all
  have rm: "\<forall>q. Remove q \<in> set tr \<longrightarrow>
            q = localPath \<and> deleteAfter u \<and>
            (\<exists>i. int i \<le> maxRetries u \<and> attemptOk env st localPath i \<and> Attempt i \<in> set tr)"
    unfolding tr using uploadLoop_Remove[of _ u env localPath k 0 st] by blast
  have files: "localFiles st' = localFiles st \<or>
          (deleteAfter u \<and> localFiles st' = (localFiles st)(localPath := None) \<and>
           (\<exists>i s3Key. int i \<le> maxRetries u \<and> attemptOk env st localPath i \<and>
              Attempt i \<in> set tr \<and> generateS3Key (Base localPath) = Inr s3Key \<and>
              remote st' s3Key = localFiles st localPath))"
    using uploadLoop_files[of u env localPath k 0 st] Inr unfolding tr st' by blast
  have files': "localFiles st' = localFiles st \<or>
      (\<exists>i. int i \<le> maxRetries u \<and> attemptOk env st localPath i) \<and> last tr = Remove localPath"
    using uploadLoop_files[of u env localPath k 0 st] unfolding tr st' by blast
  have allfail: "(\<forall>i. int i \<le> maxRetries u \<longrightarrow> \<not> attemptOk env st localPath i) \<longrightarrow>
            localFiles st' = localFiles st \<and> (\<forall>q. Remove q \<notin> set tr)"
    using files' rm by blast
  have cancel: "(\<exists>d. tr \<noteq> [] \<and> last tr = Sleep d) \<longrightarrow>
            localFiles st' = localFiles st \<and> (\<forall>q. Remove q \<notin> set tr)"
  proof (intro impI, elim exE conjE)
    fix d assume l: "last tr = Sleep d"
    with files' have "localFiles st' = localFiles st" by auto
    moreover have "\<forall>q. Remove q \<notin> set tr"
    proof (intro allI notI)
      fix q assume "Remove q \<in> set tr"
      then have "last tr = Remove q"
        unfolding tr by (rule uploadLoop_Remove_last)
      with l show False by simp
    qed
    ultimately show "localFiles st' = localFiles st \<and> (\<forall>q. Remove q \<notin> set tr)" ..
  qed
  from Inr have nokey: "(\<exists>err. generateS3Key (Base localPath) = Inl err) \<longrightarrow> st' = st \<and> tr = []"
    by simp
  from files rm allfail nokey cancel show ?thesis by blast
qed

theorem local_file_removed_only_after_confirmed_upload_witness:
  "uploadWithRetry \<lparr>bucket = ''archive'', deleteAfter = True, maxRetries = 1\<rparr>
     \<lparr>putOk = (\<lambda>i. 1 \<le> i), ctxDone = (\<lambda>i. False), removeOk = True\<rparr>
     \<lparr>localFiles = [''data/kick_xqc_20240229_2359.jsonl'' \<mapsto> ''{}''], remote = Map.empty\<rparr>
     ''data/kick_xqc_20240229_2359.jsonl'' =
   ([Attempt 0, Sleep 1000000000, Attempt 1, Remove ''data/kick_xqc_20240229_2359.jsonl''],
    \<lparr>localFiles = Map.empty,
     remote = [''2024/02/29/kick/xqc/kick_xqc_20240229_2359.jsonl'' \<mapsto> ''{}'']\<rparr>) \<and>
   uploadWithRetry \<lparr>bucket = ''archive'', deleteAfter = True, maxRetries = 1\<rparr>
     \<lparr>putOk = (\<lambda>i. False), ctxDone = (\<lambda>i. False), removeOk = True\<rparr>
     \<lparr>localFiles = [''data/kick_xqc_20240229_2359.jsonl'' \<mapsto> ''{}''], remote = Map.empty\<rparr>
     ''data/kick_xqc_20240229_2359.jsonl'' =
   ([Attempt 0, Sleep 1000000000, Attempt 1],
    \<lparr>localFiles = [''data/kick_xqc_20240229_2359.jsonl'' \<mapsto> ''{}''], remote = Map.empty\<rparr>) \<and>
   uploadWithRetry \<lparr>bucket = ''archive'', deleteAfter = True, maxRetries = 1\<rparr>
     \<lparr>putOk = (\<lambda>i. 1 \<le> i), ctxDone = (\<lambda>i. True), removeOk = True\<rparr>
     \<lparr>localFiles = [''data/kick_xqc_20240229_2359.jsonl'' \<mapsto> ''{}''], remote = Map.empty\<rparr>
     ''data/kick_xqc_20240229_2359.jsonl'' =
   ([Attempt 0, Sleep 1000000000],
    \<lparr>localFiles = [''data/kick_xqc_20240229_2359.jsonl'' \<mapsto> ''{}''], remote = Map.empty\<rparr>)"
proof -
  let ?u = "\<lparr>bucket = ''archive'', deleteAfter = True, maxRetries = 1\<rparr>"
  let ?p = "''data/kick_xqc_20240229_2359.jsonl''"
  let ?k = "''2024/02/29/kick/xqc/kick_xqc_20240229_2359.jsonl''"
  let ?st = "\<lparr>localFiles = [?p \<mapsto> ''{}''], remote = Map.empty\<rparr>"
  let ?ok = "\<lparr>putOk = (\<lambda>i. 1 \<le> i), ctxDone = (\<lambda>i. False), removeOk = True\<rparr>"
  let ?bad = "\<lparr>putOk = (\<lambda>i. False), ctxDone = (\<lambda>i. False), removeOk = True\<rparr>"
  let ?stop = "\<lparr>putOk = (\<lambda>i. 1 \<le> i), ctxDone = (\<lambda>i. True), removeOk = True\<rparr>"
  have b: "Base ?p = ''kick_xqc_20240229_2359.jsonl''"
    by (simp add: Base_def)
  have k: "generateS3Key (Base ?p) = Inr ?k"
    unfolding b
    by (simp add: generateS3Key_def TrimSuffix_def HasSuffix_def timeParse_def atoi_def
          isDigitChar_def digitVal_def daysIn_def isLeap_def padInt_def digitChar_def Let_def)
  have b0: "backoff 0 = 1000000000" by (simp add: backoff_def)
  have run1: "uploadWithRetry ?u ?ok ?st ?p =
      ([Attempt 0, Sleep 1000000000, Attempt 1, Remove ?p],
       \<lparr>localFiles = Map.empty, remote = [?k \<mapsto> ''{}'']\<rparr>)"
  proof -
    have "uploadLoop ?u ?ok ?p ?k 0 ?st =
        (Attempt 0 # Sleep (backoff 0) # fst (uploadLoop ?u ?ok ?p ?k (Suc 0) ?st),
         snd (uploadLoop ?u ?ok ?p ?k (Suc 0) ?st))"
      by (intro uploadLoop_retry) (simp_all add: attemptOk_def)
    moreover have "uploadLoop ?u ?ok ?p ?k (Suc 0) ?st =
        ([Attempt (Suc 0), Remove ?p],
         removeLocal ?ok ?p (?st\<lparr>remote := (remote ?st)(?k \<mapsto> the (localFiles ?st ?p))\<rparr>))"
      using uploadLoop_success[of "Suc 0" ?u ?ok ?st ?p ?k]
      by (simp add: attemptOk_def)
    ultimately show ?thesis
      by (simp add: uploadWithRetry_key[OF k] b0 removeLocal_def)
  qed
  have run2: "uploadWithRetry ?u ?bad ?st ?p = ([Attempt 0, Sleep 1000000000, Attempt 1], ?st)"
  proof -
    have "uploadLoop ?u ?bad ?p ?k 0 ?st =
        (Attempt 0 # Sleep (backoff 0) # fst (uploadLoop ?u ?bad ?p ?k (Suc 0) ?st),
         snd (uploadLoop ?u ?bad ?p ?k (Suc 0) ?st))"
      by (intro uploadLoop_retry) (simp_all add: attemptOk_def)
    moreover have "uploadLoop ?u ?bad ?p ?k (Suc 0) ?st = ([Attempt (Suc 0)], ?st)"
      by (intro uploadLoop_last) (simp_all add: attemptOk_def)
    ultimately show ?thesis
      by (simp add: uploadWithRetry_key[OF k] b0)
  qed
  have run3: "uploadWithRetry ?u ?stop ?st ?p = ([Attempt 0, Sleep 1000000000], ?st)"
  proof -
    have "uploadLoop ?u ?stop ?p ?k 0 ?st = ([Attempt 0, Sleep (backoff 0)], ?st)"
      by (intro uploadLoop_cancelled) (simp_all add: attemptOk_def)
    then show ?thesis
      by (simp add: uploadWithRetry_key[OF k] b0)
  qed
  note t1 = local_file_removed_only_after_confirmed_upload[OF run1]
  note t2 = local_file_removed_only_after_confirmed_upload[OF run2]
  note t3 = local_file_removed_only_after_confirmed_upload[OF run3]
  from t1 t2 t3 run1 run2 run3 show ?thesis by simp
qed

section \<open>Properties of the recorder\<close>

subsection \<open>Flushing a writer\<close>

lemma writeAll_ok:
  "writeAll mar False False ms n out =
     Inr (n + int (length (encodeLines mar ms)), out @ encodeLines mar ms)"
  by (induction ms arbitrary: n out) (auto simp: encodeLines_def split: option.splits)

lemma writeFile_frame:
  "handles (writeFile w h bytes) = handles w"
  "fileChan (writeFile w h bytes) = fileChan w"
  "chanCap (writeFile w h bytes) = chanCap w"
  by (simp_all add: writeFile_def split: option.splits)

lemma writeFile_disk_other:
  "p \<noteq> pathOf w h \<Longrightarrow> disk (writeFile w h bytes) p = disk w p"
  by (simp add: writeFile_def split: option.splits)

lemma writeFile_dom: "dom (disk (writeFile w h bytes)) = dom (disk w)"
  by (auto simp: writeFile_def split: option.splits if_splits)

lemma flushFileWriter_cases:
  obtains (writeErr) err n where
      "flushFileWriter env w fw = (Some err, fw\<lparr>writerErr := True, bytesWritten := n\<rparr>, w)"
  | (flushErr) n where
      "flushFileWriter env w fw =
         (Some FlushWriter, fw\<lparr>writerErr := True, bytesWritten := n, messageBuffer := []\<rparr>, w)"
  | (ok) n out where
      "flushFileWriter env w fw =
         (None, fw\<lparr>bytesWritten := n, messageBuffer := []\<rparr>, writeFile w (fileHandle fw) out)"
proof (cases "writeAll (marshal env) (writerErr fw \<or> sinkFault env w fw = Some WriteFails)
             (sinkFault env w fw = Some NewlineFails) (messageBuffer fw) (bytesWritten fw) []")
  case (Inl a)
  obtain err n where "a = (err, n)" by (cases a)
  with Inl have "flushFileWriter env w fw = (Some err, fw\<lparr>writerErr := True, bytesWritten := n\<rparr>, w)"
    by (simp add: flushFileWriter_def Let_def)
  then show ?thesis by (rule writeErr)
next
  case (Inr b)
  obtain n out where b: "b = (n, out)" by (cases b)
  show ?thesis
  proof (cases "writerErr fw \<or> (out \<noteq> [] \<and> sinkFault env w fw = Some FlushFails)")
    case True
    with Inr b have "flushFileWriter env w fw =
         (Some FlushWriter, fw\<lparr>writerErr := True, bytesWritten := n, messageBuffer := []\<rparr>, w)"
      by (simp add: flushFileWriter_def Let_def)
    then show ?thesis by (rule flushErr)
  next
    case False
    with Inr b have "flushFileWriter env w fw =
         (None, fw\<lparr>bytesWritten := n, messageBuffer := []\<rparr>, writeFile w (fileHandle fw) out)"
      by (simp add: flushFileWriter_def Let_def)
    then show ?thesis by (rule ok)
  qed
qed

lemma flushFileWriter_fields:
  "fileHandle (fst (snd (flushFileWriter env w fw))) = fileHandle fw"
  "platform (fst (snd (flushFileWriter env w fw))) = platform fw"
  "channel (fst (snd (flushFileWriter env w fw))) = channel fw"
  "filename (fst (snd (flushFileWriter env w fw))) = filename fw"
  "createdAt (fst (snd (flushFileWriter env w fw))) = createdAt fw"
  by (rule flushFileWriter_cases[of env w fw]; simp)+

lemma flushFileWriter_frame:
  "handles (snd (snd (flushFileWriter env w fw))) = handles w"
  "fileChan (snd (snd (flushFileWriter env w fw))) = fileChan w"
  "chanCap (snd (snd (flushFileWriter env w fw))) = chanCap w"
  by (rule flushFileWriter_cases[of env w fw]; simp add: writeFile_frame)+

lemma flushFileWriter_disk_other:
  "p \<noteq> pathOf w (fileHandle fw) \<Longrightarrow>
     disk (snd (snd (flushFileWriter env w fw))) p = disk w p"
  by (rule flushFileWriter_cases[of env w fw]; simp add: writeFile_disk_other)

lemma flushFileWriter_dom:
  "dom (disk (snd (snd (flushFileWriter env w fw)))) = dom (disk w)"
  by (rule flushFileWriter_cases[of env w fw]; simp add: writeFile_dom)

lemma flushFileWriter_ok:
  assumes "isOpen w (fileHandle fw)" "\<not> writerErr fw" "ioFault env (fileHandle fw) = None"
    and "disk w (pathOf w (fileHandle fw)) = Some content"
  shows "flushFileWriter env w fw =
           (None,
            fw\<lparr>bytesWritten :=
                 bytesWritten fw + int (length (encodeLines (marshal env) (messageBuffer fw))),
               messageBuffer := []\<rparr>,
            w\<lparr>disk := (disk w)(pathOf w (fileHandle fw) \<mapsto>
                 content @ encodeLines (marshal env) (messageBuffer fw))\<rparr>)"
  using assms
  by (simp add: flushFileWriter_def sinkFault_def Let_def writeAll_ok writeFile_def isOpen_def)

lemma closeFile_frame:
  "disk (closeFile w h) = disk w"
  "fileChan (closeFile w h) = fileChan w"
  "chanCap (closeFile w h) = chanCap w"
  "length (handles (closeFile w h)) = length (handles w)"
  by (simp_all add: closeFile_def)

lemma closeFile_closed: "\<not> isOpen (closeFile w h) h"
  by (simp add: closeFile_def isOpen_def)

lemma closeFile_other:
  "h' \<noteq> h \<Longrightarrow> handles (closeFile w h) ! h' = handles w ! h'"
  by (simp add: closeFile_def)

lemma closeFile_pathOf: "h' < length (handles w) \<Longrightarrow> pathOf (closeFile w h) h' = pathOf w h'"
  by (cases "h' = h") (simp_all add: closeFile_def pathOf_def)

lemma trySend_frame:
  "disk (trySend w p) = disk w"
  "handles (trySend w p) = handles w"
  "chanCap (trySend w p) = chanCap w"
  by (simp_all add: trySend_def)

lemma trySend_full: "chanCap w \<le> length (fileChan w) \<Longrightarrow> trySend w p = w"
  by (simp add: trySend_def)

lemma isOpen_cong: "handles w' = handles w \<Longrightarrow> isOpen w' h = isOpen w h"
  by (simp add: isOpen_def)

lemma pathOf_cong: "handles w' = handles w \<Longrightarrow> pathOf w' h = pathOf w h"
  by (simp add: pathOf_def)

subsection \<open>Creating a writer\<close>

lemma createFileWriter_ok:
  assumes "canCreate env (Join (outputDir r) (segmentName plat chan (now env)))"
  shows "createFileWriter env r w plat chan =
           Inr (\<lparr>fileHandle = length (handles w), writerErr = False, createdAt = now env,
                 bytesWritten = 0, messageBuffer = [], platform = plat, channel = chan,
                 filename = segmentName plat chan (now env)\<rparr>,
                w\<lparr>disk := (disk w)(Join (outputDir r) (segmentName plat chan (now env)) \<mapsto> []),
                  handles := handles w @
                    [(Join (outputDir r) (segmentName plat chan (now env)), True)]\<rparr>)"
  using assms by (simp add: createFileWriter_def osCreate_def Let_def)

lemma createFileWriter_fails:
  assumes "\<not> canCreate env (Join (outputDir r) (segmentName plat chan (now env)))"
  shows "createFileWriter env r w plat chan =
           Inl (CreateFile (Join (outputDir r) (segmentName plat chan (now env))))"
  using assms by (simp add: createFileWriter_def osCreate_def Let_def)

lemma segmentName_sameMinute:
  "sameMinute t1 t2 \<Longrightarrow> segmentName plat chan t1 = segmentName plat chan t2"
  by (simp add: sameMinute_def segmentName_def Format_def)

subsection \<open>Rotating a writer\<close>

lemma rotateFile_unfold:
  "rotateFile env key fw (r, w) =
     (case createFileWriter env r (rotated env r w fw) (platform fw) (channel fw) of
        Inl err \<Rightarrow> (r\<lparr>currentFiles := (currentFiles r)(key := None)\<rparr>, rotated env r w fw)
      | Inr (newFw, w4) \<Rightarrow> (r\<lparr>currentFiles := (currentFiles r)(key \<mapsto> newFw)\<rparr>, w4))"
proof -
  obtain err fw1 w1 where f: "flushFileWriter env w fw = (err, fw1, w1)"
    by (cases "flushFileWriter env w fw")
  from flushFileWriter_fields[of env w fw] f
  have "fileHandle fw1 = fileHandle fw" "platform fw1 = platform fw" "channel fw1 = channel fw"
    "filename fw1 = filename fw"
    by simp_all
  with f show ?thesis
    by (simp add: rotateFile_def rotated_def Let_def split: sum.splits)
qed


lemma rotated_frame:
  "disk (rotated env r w fw) = disk (snd (snd (flushFileWriter env w fw)))"
  "length (handles (rotated env r w fw)) = length (handles w)"
  "chanCap (rotated env r w fw) = chanCap w"
  by (simp_all add: rotated_def trySend_frame closeFile_frame flushFileWriter_frame)

lemma rotated_dom: "dom (disk (rotated env r w fw)) = dom (disk w)"
  by (simp add: rotated_frame flushFileWriter_dom)

lemma rotated_closed: "\<not> isOpen (rotated env r w fw) (fileHandle fw)"
proof -
  have "handles (rotated env r w fw) =
      handles (closeFile (snd (snd (flushFileWriter env w fw))) (fileHandle fw))"
    by (simp add: rotated_def trySend_frame)
  then have "isOpen (rotated env r w fw) (fileHandle fw) =
      isOpen (closeFile (snd (snd (flushFileWriter env w fw))) (fileHandle fw)) (fileHandle fw)"
    by (rule isOpen_cong)
  then show ?thesis by (simp add: closeFile_closed)
qed

lemma rotated_handle_other:
  "h \<noteq> fileHandle fw \<Longrightarrow> handles (rotated env r w fw) ! h = handles w ! h"
  by (simp add: rotated_def trySend_frame closeFile_other flushFileWriter_frame)

lemma rotated_fileChan:
  "fileChan (rotated env r w fw) =
     (if length (fileChan w) < chanCap w
      then fileChan w @ [Join (outputDir r) (filename fw)] else fileChan w)"
  by (simp add: rotated_def trySend_def closeFile_frame flushFileWriter_frame)

lemma rotated_queue_independent:
  "rotated env r (w\<lparr>fileChan := q, chanCap := c\<rparr>) fw =
     (rotated env r w fw)\<lparr>fileChan := (if length q < c
                                          then q @ [Join (outputDir r) (filename fw)] else q),
                            chanCap := c\<rparr>"
proof -
  let ?w = "w\<lparr>fileChan := q, chanCap := c\<rparr>"
  have s: "sinkFault env ?w fw = sinkFault env w fw"
    by (simp add: sinkFault_def isOpen_def)
  have wf: "\<And>out. writeFile ?w (fileHandle fw) out =
      (writeFile w (fileHandle fw) out)\<lparr>fileChan := q, chanCap := c\<rparr>"
    by (simp add: writeFile_def pathOf_def split: option.splits)
  have f: "flushFileWriter env ?w fw =
      (fst (flushFileWriter env w fw), fst (snd (flushFileWriter env w fw)),
       (snd (snd (flushFileWriter env w fw)))\<lparr>fileChan := q, chanCap := c\<rparr>)"
    by (simp add: flushFileWriter_def Let_def s wf split: sum.splits prod.splits)
  have c: "\<And>w0 h. closeFile (w0\<lparr>fileChan := q, chanCap := c\<rparr>) h =
      (closeFile w0 h)\<lparr>fileChan := q, chanCap := c\<rparr>"
    by (simp add: closeFile_def pathOf_def)
  show ?thesis
    by (simp add: rotated_def f c trySend_def closeFile_frame flushFileWriter_frame)
qed

lemma rotateFile_created:
  assumes "canCreate env (Join (outputDir r) (segmentName (platform fw) (channel fw) (now env)))"
  shows "rotateFile env key fw (r, w) =
     (r\<lparr>currentFiles := (currentFiles r)(key \<mapsto>
          \<lparr>fileHandle = length (handles w), writerErr = False, createdAt = now env,
           bytesWritten = 0, messageBuffer = [], platform = platform fw, channel = channel fw,
           filename = segmentName (platform fw) (channel fw) (now env)\<rparr>)\<rparr>,
      (rotated env r w fw)\<lparr>
         disk := (disk (rotated env r w fw))
           (Join (outputDir r) (segmentName (platform fw) (channel fw) (now env)) \<mapsto> []),
         handles := handles (rotated env r w fw) @
           [(Join (outputDir r) (segmentName (platform fw) (channel fw) (now env)), True)]\<rparr>)"
  by (simp add: rotateFile_unfold createFileWriter_ok[OF assms] rotated_frame)

lemma rotateFile_not_created:
  assumes "\<not> canCreate env (Join (outputDir r) (segmentName (platform fw) (channel fw) (now env)))"
  shows "rotateFile env key fw (r, w) =
     (r\<lparr>currentFiles := (currentFiles r)(key := None)\<rparr>, rotated env r w fw)"
  by (simp add: rotateFile_unfold createFileWriter_fails[OF assms])

lemma createFileWriter_Inr:
  assumes "createFileWriter env r w plat chan = Inr (fw, w')"
  shows "canCreate env (Join (outputDir r) (segmentName plat chan (now env)))"
  using assms by (auto simp: createFileWriter_def osCreate_def Let_def split: if_splits)


subsection \<open>Segment names\<close>

text \<open>
  C9. The name \<open>createFileWriter\<close> gives a segment is made of the platform, the
  channel and the calendar minute of the clock reading. Two writers created for the same
  platform and channel at readings in the same UTC minute have the same filename and the
  same path, and the second \<open>os.Create\<close> leaves that file empty. In particular, when
  \<open>rotateFile\<close> rotates the first writer at a reading in the minute of its creation,
  the file it has just completed is empty afterwards and is the file of the replacement
  writer.
\<close>

theorem same_minute_segment_is_truncated:
  assumes "createFileWriter env1 r w1 plat chan = Inr (fwA, w1')"
    and "sameMinute (now env1) (now env2)"
    and "createFileWriter env2 r w2 plat chan = Inr (fwB, w2')"
    and "platform fw = plat" and "channel fw = chan" and "filename fw = filename fwA"
    and "rotateFile env2 key fw (r, w2) = (r', w')"
  shows "filename fwA = plat @ ''_'' @ chan @ ''_'' @ Format (now env1) @ ''.jsonl'' \<and>
         filename fwB = filename fwA \<and>
         pathOf w1' (fileHandle fwA) = Join (outputDir r) (filename fwA) \<and>
         pathOf w2' (fileHandle fwB) = pathOf w1' (fileHandle fwA) \<and>
         disk w2' (Join (outputDir r) (filename fwA)) = Some [] \<and>
         disk w' (Join (outputDir r) (filename fwA)) = Some [] \<and>
         (\<exists>newFw. currentFiles r' key = Some newFw \<and> filename newFw = filename fwA \<and>
            isOpen w' (fileHandle newFw) \<and>
            pathOf w' (fileHandle newFw) = Join (outputDir r) (filename fwA))"
proof -
  let ?n1 = "segmentName plat chan (now env1)"
  let ?n2 = "segmentName plat chan (now env2)"
  have n: "?n2 = ?n1" using assms(2) by (simp add: segmentName_sameMinute)
  have c1: "canCreate env1 (Join (outputDir r) ?n1)"
    using assms(1) by (rule createFileWriter_Inr)
  have c2: "canCreate env2 (Join (outputDir r) ?n2)"
    using assms(3) by (rule createFileWriter_Inr)
  from assms(1) createFileWriter_ok[OF c1, of w1]
  have a: "filename fwA = ?n1" "fileHandle fwA = length (handles w1)"
    "handles w1' = handles w1 @ [(Join (outputDir r) ?n1, True)]"
    by auto
  from assms(3) createFileWriter_ok[OF c2, of w2]
  have b: "filename fwB = ?n2" "fileHandle fwB = length (handles w2)"
    "handles w2' = handles w2 @ [(Join (outputDir r) ?n2, True)]"
    "disk w2' = (disk w2)(Join (outputDir r) ?n2 \<mapsto> [])"
    by auto
  have c2': "canCreate env2
      (Join (outputDir r) (segmentName (platform fw) (channel fw) (now env2)))"
    using c2 assms(4,5) by simp
  from assms(7) rotateFile_created[OF c2', of key w2]
  have r': "currentFiles r' key =
      Some \<lparr>fileHandle = length (handles w2), writerErr = False, createdAt = now env2,
           bytesWritten = 0, messageBuffer = [], platform = platform fw, channel = channel fw,
           filename = ?n2\<rparr>"
    and w': "disk w' = (disk (rotated env2 r w2 fw))(Join (outputDir r) ?n2 \<mapsto> [])"
      "handles w' = handles (rotated env2 r w2 fw) @ [(Join (outputDir r) ?n2, True)]"
    using assms(4,5) by auto
  have len: "length (handles (rotated env2 r w2 fw)) = length (handles w2)"
    by (rule rotated_frame)
  have "filename fwA = plat @ ''_'' @ chan @ ''_'' @ Format (now env1) @ ''.jsonl''"
    by (simp add: a segmentName_def)
  moreover have "filename fwB = filename fwA" by (simp add: a b n)
  moreover have "pathOf w1' (fileHandle fwA) = Join (outputDir r) (filename fwA)"
    by (simp add: pathOf_def a)
  moreover have "pathOf w2' (fileHandle fwB) = pathOf w1' (fileHandle fwA)"
    by (simp add: pathOf_def a b n)
  moreover have "disk w2' (Join (outputDir r) (filename fwA)) = Some []"
    by (simp add: a b n)
  moreover have "disk w' (Join (outputDir r) (filename fwA)) = Some []"
    by (simp add: a w' n)
  moreover have "\<exists>newFw. currentFiles r' key = Some newFw \<and> filename newFw = filename fwA \<and>
            isOpen w' (fileHandle newFw) \<and>
            pathOf w' (fileHandle newFw) = Join (outputDir r) (filename fwA)"
    using len by (simp add: r' w' a n isOpen_def pathOf_def nth_append)
  ultimately show ?thesis by blast
qed


subsection \<open>Rotation with a full queue\<close>

lemma Join_inject: "Join dir a = Join dir b \<longleftrightarrow> a = b"
  by (simp add: Join_def)

lemma rotated_content:
  assumes "isOpen w (fileHandle fw)" "\<not> writerErr fw" "ioFault env (fileHandle fw) = None"
    and "disk w (pathOf w (fileHandle fw)) = Some content"
  shows "disk (rotated env r w fw) (pathOf w (fileHandle fw)) =
           Some (content @ encodeLines (marshal env) (messageBuffer fw))"
  by (simp add: rotated_frame flushFileWriter_ok[OF assms])

lemma rotateFile_disk_other:
  assumes "rotateFile env key fw (r, w) = (r', w')"
    and "p \<noteq> Join (outputDir r) (segmentName (platform fw) (channel fw) (now env))"
  shows "disk w' p = disk (rotated env r w fw) p"
proof (cases "canCreate env (Join (outputDir r) (segmentName (platform fw) (channel fw) (now env)))")
  case True
  from assms(1) rotateFile_created[OF True, of key w] assms(2) show ?thesis by auto
next
  case False
  from assms(1) rotateFile_not_created[OF False, of key w] show ?thesis by auto
qed

lemma rotateFile_dom:
  assumes "rotateFile env key fw (r, w) = (r', w')"
  shows "dom (disk w) \<subseteq> dom (disk w')"
proof (cases "canCreate env (Join (outputDir r) (segmentName (platform fw) (channel fw) (now env)))")
  case True
  from assms(1) rotateFile_created[OF True, of key w] have
    "disk w' = (disk (rotated env r w fw))
       (Join (outputDir r) (segmentName (platform fw) (channel fw) (now env)) \<mapsto> [])"
    by auto
  then have "dom (disk (rotated env r w fw)) \<subseteq> dom (disk w')" by auto
  then show ?thesis by (simp add: rotated_dom)
next
  case False
  from assms(1) rotateFile_not_created[OF False, of key w] have "w' = rotated env r w fw"
    by auto
  then show ?thesis by (simp add: rotated_dom)
qed

lemma rotateFile_old_handle_closed:
  assumes "rotateFile env key fw (r, w) = (r', w')" and "fileHandle fw < length (handles w)"
  shows "\<not> isOpen w' (fileHandle fw)"
proof -
  have c: "\<not> isOpen (rotated env r w fw) (fileHandle fw)" by (rule rotated_closed)
  have l: "fileHandle fw < length (handles (rotated env r w fw))"
    using assms(2) by (simp add: rotated_frame)
  show ?thesis
  proof (cases "canCreate env (Join (outputDir r) (segmentName (platform fw) (channel fw) (now env)))")
    case True
    from assms(1) rotateFile_created[OF True, of key w] have
      "handles w' = handles (rotated env r w fw) @
         [(Join (outputDir r) (segmentName (platform fw) (channel fw) (now env)), True)]"
      by auto
    with c l show ?thesis by (simp add: isOpen_def nth_append)
  next
    case False
    from assms(1) rotateFile_not_created[OF False, of key w] have "w' = rotated env r w fw"
      by auto
    with c show ?thesis by simp
  qed
qed

text \<open>
  What holds of every rotation with \<open>fileChan\<close> at capacity: \<open>rotateFile\<close> returns with
  the channel unchanged, the send is dropped. The recorder and the world it leaves are those
  of the same rotation with room in the channel, up to the channel's content. The file of
  the rotated writer is still in the directory, its handle is closed, and when the
  replacement file can be created a new writer for the same platform and channel, with an
  empty buffer and an open file, is in the map under the same key. When no fault occurs
  and the replacement has another name, the file holds what it held before followed by the
  lines of the pending buffer.
\<close>

lemma rotateFile_full_queue:
  assumes "chanCap w \<le> length (fileChan w)"
    and "rotateFile env key fw (r, w) = (r', w')"
  shows "fileChan w' = fileChan w \<and>
         (\<forall>q c. length q < c \<longrightarrow>
            rotateFile env key fw (r, w\<lparr>fileChan := q, chanCap := c\<rparr>) =
              (r', w'\<lparr>fileChan := q @ [Join (outputDir r) (filename fw)], chanCap := c\<rparr>)) \<and>
         (Join (outputDir r) (filename fw) \<in> dom (disk w) \<longrightarrow>
            Join (outputDir r) (filename fw) \<in> dom (disk w')) \<and>
         (fileHandle fw < length (handles w) \<longrightarrow> \<not> isOpen w' (fileHandle fw)) \<and>
         (canCreate env (Join (outputDir r)
             (segmentName (platform fw) (channel fw) (now env))) \<longrightarrow>
            (\<exists>newFw. currentFiles r' key = Some newFw \<and>
               fileHandle newFw = length (handles w) \<and> isOpen w' (fileHandle newFw) \<and>
               messageBuffer newFw = [] \<and> bytesWritten newFw = 0 \<and>
               createdAt newFw = now env \<and>
               platform newFw = platform fw \<and> channel newFw = channel fw)) \<and>
         (\<forall>content.
            isOpen w (fileHandle fw) \<and> \<not> writerErr fw \<and> ioFault env (fileHandle fw) = None \<and>
            pathOf w (fileHandle fw) = Join (outputDir r) (filename fw) \<and>
            disk w (Join (outputDir r) (filename fw)) = Some content \<and>
            segmentName (platform fw) (channel fw) (now env) \<noteq> filename fw \<longrightarrow>
            disk w' (Join (outputDir r) (filename fw)) =
              Some (content @ encodeLines (marshal env) (messageBuffer fw)))"
proof -
  let ?new = "Join (outputDir r) (segmentName (platform fw) (channel fw) (now env))"
  let ?old = "Join (outputDir r) (filename fw)"
  have q0: "fileChan (rotated env r w fw) = fileChan w"
    using assms(1) by (simp add: rotated_fileChan)
  have chan: "fileChan w' = fileChan w"
  proof (cases "canCreate env ?new")
    case True
    from assms(2) rotateFile_created[OF True, of key w] q0 show ?thesis by auto
  next
    case False
    from assms(2) rotateFile_not_created[OF False, of key w] q0 show ?thesis by auto
  qed
  have same: "\<forall>q c. length q < c \<longrightarrow>
            rotateFile env key fw (r, w\<lparr>fileChan := q, chanCap := c\<rparr>) =
              (r', w'\<lparr>fileChan := q @ [?old], chanCap := c\<rparr>)"
  proof (intro allI impI)
    fix q :: "string list" and c :: nat
    assume lt: "length q < c"
    let ?w = "w\<lparr>fileChan := q, chanCap := c\<rparr>"
    have rq: "rotated env r ?w fw = (rotated env r w fw)\<lparr>fileChan := q @ [?old], chanCap := c\<rparr>"
      using lt by (simp add: rotated_queue_independent)
    show "rotateFile env key fw (r, ?w) = (r', w'\<lparr>fileChan := q @ [?old], chanCap := c\<rparr>)"
    proof (cases "canCreate env ?new")
      case True
      from assms(2) rotateFile_created[OF True, of key w]
      have e: "r' = r\<lparr>currentFiles := (currentFiles r)(key \<mapsto>
            \<lparr>fileHandle = length (handles w), writerErr = False, createdAt = now env,
             bytesWritten = 0, messageBuffer = [], platform = platform fw, channel = channel fw,
             filename = segmentName (platform fw) (channel fw) (now env)\<rparr>)\<rparr>"
        "w' = (rotated env r w fw)\<lparr>disk := (disk (rotated env r w fw))(?new \<mapsto> []),
              handles := handles (rotated env r w fw) @ [(?new, True)]\<rparr>"
        by simp_all
      show ?thesis
        by (simp add: rotateFile_created[OF True, of key ?w] rq e)
    next
      case False
      from assms(2) rotateFile_not_created[OF False, of key w]
      have e: "r' = r\<lparr>currentFiles := (currentFiles r)(key := None)\<rparr>"
        "w' = rotated env r w fw"
        by simp_all
      show ?thesis
        by (simp add: rotateFile_not_created[OF False, of key ?w] rq e)
    qed
  qed
  have remains: "?old \<in> dom (disk w) \<longrightarrow> ?old \<in> dom (disk w')"
    using rotateFile_dom[OF assms(2)] by blast
  have closed: "fileHandle fw < length (handles w) \<longrightarrow> \<not> isOpen w' (fileHandle fw)"
    using rotateFile_old_handle_closed[OF assms(2)] by blast
  have installed: "canCreate env ?new \<longrightarrow>
            (\<exists>newFw. currentFiles r' key = Some newFw \<and>
               fileHandle newFw = length (handles w) \<and> isOpen w' (fileHandle newFw) \<and>
               messageBuffer newFw = [] \<and> bytesWritten newFw = 0 \<and>
               createdAt newFw = now env \<and>
               platform newFw = platform fw \<and> channel newFw = channel fw)"
  proof
    assume c: "canCreate env ?new"
    have len: "length (handles (rotated env r w fw)) = length (handles w)"
      by (rule rotated_frame)
    from assms(2) rotateFile_created[OF c, of key w] len
    show "\<exists>newFw. currentFiles r' key = Some newFw \<and>
               fileHandle newFw = length (handles w) \<and> isOpen w' (fileHandle newFw) \<and>
               messageBuffer newFw = [] \<and> bytesWritten newFw = 0 \<and>
               createdAt newFw = now env \<and>
               platform newFw = platform fw \<and> channel newFw = channel fw"
      by (auto simp: isOpen_def nth_append)
  qed
  have content: "\<forall>content.
            isOpen w (fileHandle fw) \<and> \<not> writerErr fw \<and> ioFault env (fileHandle fw) = None \<and>
            pathOf w (fileHandle fw) = ?old \<and> disk w ?old = Some content \<and>
            segmentName (platform fw) (channel fw) (now env) \<noteq> filename fw \<longrightarrow>
            disk w' ?old = Some (content @ encodeLines (marshal env) (messageBuffer fw))"
  proof (intro allI impI, elim conjE)
    fix content
    assume h: "isOpen w (fileHandle fw)" "\<not> writerErr fw" "ioFault env (fileHandle fw) = None"
      "pathOf w (fileHandle fw) = ?old" "disk w ?old = Some content"
      "segmentName (platform fw) (channel fw) (now env) \<noteq> filename fw"
    from h(6) have ne: "?old \<noteq> ?new" by (simp add: Join_inject)
    have "disk w' ?old = disk (rotated env r w fw) ?old"
      using assms(2) ne by (rule rotateFile_disk_other)
    also have "\<dots> = Some (content @ encodeLines (marshal env) (messageBuffer fw))"
      using rotated_content[of w fw env content r] h by simp
    finally show "disk w' ?old = Some (content @ encodeLines (marshal env) (messageBuffer fw))" .
  qed
  from chan same remains closed installed content show ?thesis by blast
qed


subsection \<open>Rotation when the replacement cannot be created\<close>

text \<open>
  C10. When the replacement writer cannot be created, \<open>rotateFile\<close> leaves no entry
  for the key in the map, and the rotated writer's file is closed. The next
  \<open>recordMessage\<close> for that key (when the file can be created then) puts a new writer in
  the map, on a new, open file handle, not the closed one; the message is in its
  buffer, or, when the buffer size is at most one and the write meets no fault, in its
  file.
\<close>

theorem failed_rotation_removes_writer_and_next_message_recreates:
  assumes "\<not> canCreate env
             (Join (outputDir r) (segmentName (platform fw) (channel fw) (now env)))"
    and "rotateFile env key fw (r, w) = (r1, w1)"
    and "Platform msg @ ''_'' @ Channel msg = key"
    and "canCreate env2
           (Join (outputDir r) (segmentName (Platform msg) (Channel msg) (now env2)))"
    and "recordMessage env2 msg (r1, w1) = (err, r2, w2)"
  shows "currentFiles r1 key = None \<and>
         (fileHandle fw < length (handles w) \<longrightarrow>
            \<not> isOpen w1 (fileHandle fw) \<and> \<not> isOpen w2 (fileHandle fw)) \<and>
         (\<exists>fw2. currentFiles r2 key = Some fw2 \<and>
            fileHandle fw2 = length (handles w) \<and> isOpen w2 (fileHandle fw2) \<and>
            createdAt fw2 = now env2 \<and>
            pathOf w2 (fileHandle fw2) =
              Join (outputDir r) (segmentName (Platform msg) (Channel msg) (now env2)) \<and>
            (if 1 < bufferSize r
             then err = None \<and> messageBuffer fw2 = [msg] \<and>
                  disk w2 (pathOf w2 (fileHandle fw2)) = Some []
             else (ioFault env2 (length (handles w)) = None \<longrightarrow>
                     err = None \<and> messageBuffer fw2 = [] \<and>
                     disk w2 (pathOf w2 (fileHandle fw2)) =
                       Some (encodeLines (marshal env2) [msg]))))"
proof -
  let ?p = "Join (outputDir r) (segmentName (Platform msg) (Channel msg) (now env2))"
  let ?h = "length (handles w)"
  let ?new = "\<lparr>fileHandle = ?h, writerErr = False, createdAt = now env2,
                 bytesWritten = 0, messageBuffer = [], platform = Platform msg,
                 channel = Channel msg,
                 filename = segmentName (Platform msg) (Channel msg) (now env2)\<rparr>"
  let ?w1n = "w1\<lparr>disk := (disk w1)(?p \<mapsto> []), handles := handles w1 @ [(?p, True)]\<rparr>"
  from assms(2) rotateFile_not_created[OF assms(1), of key w]
  have r1: "r1 = r\<lparr>currentFiles := (currentFiles r)(key := None)\<rparr>"
    and w1: "w1 = rotated env r w fw"
    by simp_all
  have none: "currentFiles r1 key = None" by (simp add: r1)
  have len: "length (handles w1) = ?h" by (simp add: w1 rotated_frame)
  have ok': "canCreate env2
      (Join (outputDir r1) (segmentName (Platform msg) (Channel msg) (now env2)))"
    using assms(4) by (simp add: r1)
  have cr: "createFileWriter env2 r1 w1 (Platform msg) (Channel msg) = Inr (?new, ?w1n)"
    using createFileWriter_ok[OF ok', of w1] by (simp add: len r1)
  have open1: "isOpen ?w1n ?h" by (simp add: isOpen_def len nth_append)
  have path1: "pathOf ?w1n ?h = ?p" by (simp add: pathOf_def len nth_append)
  have closed1: "fileHandle fw < ?h \<longrightarrow> \<not> isOpen w1 (fileHandle fw)"
    by (simp add: w1 rotated_closed)
  have closed1n: "fileHandle fw < ?h \<longrightarrow> \<not> isOpen ?w1n (fileHandle fw)"
    using closed1 by (simp add: isOpen_def len nth_append)
  show ?thesis
  proof (cases "1 < bufferSize r")
    case True
    from assms(5) none cr True assms(3)
    have res: "err = None" "w2 = ?w1n"
      "r2 = r1\<lparr>currentFiles := (currentFiles r1)(key \<mapsto> ?new\<lparr>messageBuffer := [msg]\<rparr>)\<rparr>"
      by (simp_all add: recordMessage_def Let_def r1)
    have "\<exists>fw2. currentFiles r2 key = Some fw2 \<and>
            fileHandle fw2 = ?h \<and> isOpen w2 (fileHandle fw2) \<and>
            createdAt fw2 = now env2 \<and> pathOf w2 (fileHandle fw2) = ?p \<and>
            err = None \<and> messageBuffer fw2 = [msg] \<and>
            disk w2 (pathOf w2 (fileHandle fw2)) = Some []"
      using open1 path1 by (simp add: res)
    with True none closed1 closed1n res(2) show ?thesis by auto
  next
    case False
    let ?fw1 = "?new\<lparr>messageBuffer := [msg]\<rparr>"
    obtain e fwf wf where fl: "flushFileWriter env2 ?w1n ?fw1 = (e, fwf, wf)"
      by (cases "flushFileWriter env2 ?w1n ?fw1")
    from assms(5) none cr False assms(3) fl
    have res: "err = e" "w2 = wf" "r2 = r1\<lparr>currentFiles := (currentFiles r1)(key \<mapsto> fwf)\<rparr>"
      by (simp_all add: recordMessage_def Let_def r1)
    from flushFileWriter_fields[of env2 ?w1n ?fw1] fl
    have fh: "fileHandle fwf = ?h" "createdAt fwf = now env2" by simp_all
    from flushFileWriter_frame[of env2 ?w1n ?fw1] fl
    have hw: "handles wf = handles ?w1n" by simp
    have open2: "isOpen wf ?h" using open1 by (simp add: isOpen_def hw)
    have path2: "pathOf wf ?h = ?p" using path1 by (simp add: pathOf_def hw)
    have closed2: "fileHandle fw < ?h \<longrightarrow> \<not> isOpen wf (fileHandle fw)"
      using closed1n by (simp add: isOpen_def hw)
    have flushed: "ioFault env2 ?h = None \<longrightarrow>
        e = None \<and> messageBuffer fwf = [] \<and> disk wf ?p = Some (encodeLines (marshal env2) [msg])"
    proof
      assume nf: "ioFault env2 ?h = None"
      have d: "disk ?w1n (pathOf ?w1n (fileHandle ?fw1)) = Some []"
        by (simp add: path1)
      have "flushFileWriter env2 ?w1n ?fw1 =
           (None,
            ?fw1\<lparr>bytesWritten :=
                 bytesWritten ?fw1 + int (length (encodeLines (marshal env2) (messageBuffer ?fw1))),
               messageBuffer := []\<rparr>,
            ?w1n\<lparr>disk := (disk ?w1n)(pathOf ?w1n (fileHandle ?fw1) \<mapsto>
                 [] @ encodeLines (marshal env2) (messageBuffer ?fw1))\<rparr>)"
        using open1 nf d by (intro flushFileWriter_ok) simp_all
      with fl show "e = None \<and> messageBuffer fwf = [] \<and>
          disk wf ?p = Some (encodeLines (marshal env2) [msg])"
        by (auto simp: path1)
    qed
    have "\<exists>fw2. currentFiles r2 key = Some fw2 \<and>
            fileHandle fw2 = ?h \<and> isOpen w2 (fileHandle fw2) \<and>
            createdAt fw2 = now env2 \<and> pathOf w2 (fileHandle fw2) = ?p \<and>
            (ioFault env2 ?h = None \<longrightarrow>
                     err = None \<and> messageBuffer fw2 = [] \<and>
                     disk w2 (pathOf w2 (fileHandle fw2)) =
                       Some (encodeLines (marshal env2) [msg]))"
      using open2 path2 flushed fh by (simp add: res)
    with False none closed1 closed2 res(2) show ?thesis by auto
  qed
qed


subsection \<open>Concrete runs of the rotation\<close>

lemma segmentName_1030:
  "segmentName ''twitch'' ''ludwig'' (clockAt 30 ss m) = ''twitch_ludwig_20251230_1030.jsonl''"
  by (simp add: segmentName_def Format_def clockAt_def padInt_def digitChar_def)

lemma segmentName_1031:
  "segmentName ''twitch'' ''ludwig'' (clockAt 31 ss m) = ''twitch_ludwig_20251230_1031.jsonl''"
  by (simp add: segmentName_def Format_def clockAt_def padInt_def digitChar_def)

lemma New_example:
  "New ''data'' 100 60 100 =
     \<lparr>outputDir = ''data'', bufferSize = 100, rotateMinutes = 60,
      rotateMegabytes = 104857600, currentFiles = Map.empty\<rparr>"
  by (simp add: New_def)

lemma Join_data: "Join ''data'' name = ''data/'' @ name"
  by (simp add: Join_def)

theorem same_minute_segment_is_truncated_witness:
  "sameMinute (clockAt 30 5 5) (clockAt 30 40 40) \<and>
   createFileWriter (quietEnv (clockAt 30 5 5) [''twitch_ludwig'']) (New ''data'' 100 60 100)
     (emptyWorld 100) ''twitch'' ''ludwig'' =
     Inr (\<lparr>fileHandle = 0, writerErr = False, createdAt = clockAt 30 5 5, bytesWritten = 0,
           messageBuffer = [], platform = ''twitch'', channel = ''ludwig'',
           filename = ''twitch_ludwig_20251230_1030.jsonl''\<rparr>,
          \<lparr>disk = [''data/twitch_ludwig_20251230_1030.jsonl'' \<mapsto> []],
           handles = [(''data/twitch_ludwig_20251230_1030.jsonl'', True)],
           fileChan = [], chanCap = 100\<rparr>) \<and>
   disk (snd (rotateFile (quietEnv (clockAt 30 40 40) [''twitch_ludwig'']) ''twitch_ludwig''
       \<lparr>fileHandle = 0, writerErr = False, createdAt = clockAt 30 5 5, bytesWritten = 6,
        messageBuffer = [], platform = ''twitch'', channel = ''ludwig'',
        filename = ''twitch_ludwig_20251230_1030.jsonl''\<rparr>
       (New ''data'' 100 60 100,
        \<lparr>disk = [''data/twitch_ludwig_20251230_1030.jsonl'' \<mapsto> ''hello!''],
         handles = [(''data/twitch_ludwig_20251230_1030.jsonl'', True)],
         fileChan = [], chanCap = 100\<rparr>)))
     ''data/twitch_ludwig_20251230_1030.jsonl'' = Some []"
proof -
  let ?env1 = "quietEnv (clockAt 30 5 5) [''twitch_ludwig'']"
  let ?env2 = "quietEnv (clockAt 30 40 40) [''twitch_ludwig'']"
  let ?r = "New ''data'' 100 60 100"
  let ?P = "''data/twitch_ludwig_20251230_1030.jsonl''"
  let ?fwA = "\<lparr>fileHandle = 0, writerErr = False, createdAt = clockAt 30 5 5, bytesWritten = 0,
           messageBuffer = [], platform = ''twitch'', channel = ''ludwig'',
           filename = ''twitch_ludwig_20251230_1030.jsonl''\<rparr>"
  let ?fw = "\<lparr>fileHandle = 0, writerErr = False, createdAt = clockAt 30 5 5, bytesWritten = 6,
           messageBuffer = [], platform = ''twitch'', channel = ''ludwig'',
           filename = ''twitch_ludwig_20251230_1030.jsonl''\<rparr>"
  let ?w1' = "\<lparr>disk = [?P \<mapsto> []], handles = [(?P, True)], fileChan = [], chanCap = 100\<rparr>"
  let ?w2 = "\<lparr>disk = [?P \<mapsto> ''hello!''], handles = [(?P, True)], fileChan = [], chanCap = 100\<rparr>"
  let ?fwB = "\<lparr>fileHandle = 1, writerErr = False, createdAt = clockAt 30 40 40, bytesWritten = 0,
           messageBuffer = [], platform = ''twitch'', channel = ''ludwig'',
           filename = ''twitch_ludwig_20251230_1030.jsonl''\<rparr>"
  let ?w2' = "\<lparr>disk = [?P \<mapsto> []], handles = [(?P, True), (?P, True)], fileChan = [],
              chanCap = 100\<rparr>"
  have sm: "sameMinute (clockAt 30 5 5) (clockAt 30 40 40)"
    by (simp add: sameMinute_def clockAt_def)
  have c1: "createFileWriter ?env1 ?r (emptyWorld 100) ''twitch'' ''ludwig'' = Inr (?fwA, ?w1')"
    by (simp add: createFileWriter_def osCreate_def segmentName_1030 quietEnv_def New_example
          emptyWorld_def Join_data Let_def)
  have c2: "createFileWriter ?env2 ?r ?w2 ''twitch'' ''ludwig'' = Inr (?fwB, ?w2')"
    by (simp add: createFileWriter_def osCreate_def segmentName_1030 quietEnv_def New_example
          Join_data Let_def)
  obtain r' w' where rot: "rotateFile ?env2 ''twitch_ludwig'' ?fw (?r, ?w2) = (r', w')"
    by (cases "rotateFile ?env2 ''twitch_ludwig'' ?fw (?r, ?w2)")
  have sm': "sameMinute (now ?env1) (now ?env2)" using sm by (simp add: quietEnv_def)
  have p: "platform ?fw = ''twitch''" and c: "channel ?fw = ''ludwig''"
    and f: "filename ?fw = filename ?fwA"
    by simp_all
  from same_minute_segment_is_truncated[OF c1 sm' c2 p c f rot]
  have "disk w' (Join (outputDir ?r) (filename ?fwA)) = Some []" by blast
  then have "disk w' ?P = Some []"
    by (simp add: New_example Join_data)
  then have "disk (snd (rotateFile ?env2 ''twitch_ludwig'' ?fw (?r, ?w2))) ?P = Some []"
    by (simp only: rot snd_conv)
  with sm c1 show ?thesis by (intro conjI)
qed

lemma rotateFile_full_queue_example:
  "fileChan (snd (rotateFile (quietEnv (clockAt 31 40 100) [''twitch_ludwig'']) ''twitch_ludwig''
       \<lparr>fileHandle = 0, writerErr = False, createdAt = clockAt 30 5 5, bytesWritten = 6,
        messageBuffer = [chatMessage ''ludwig'' ''gg''], platform = ''twitch'',
        channel = ''ludwig'', filename = ''twitch_ludwig_20251230_1030.jsonl''\<rparr>
       (New ''data'' 100 60 100,
        \<lparr>disk = [''data/twitch_ludwig_20251230_1030.jsonl'' \<mapsto> ''hello!''],
         handles = [(''data/twitch_ludwig_20251230_1030.jsonl'', True)],
         fileChan = [''data/kick_xqc_20251230_0930.jsonl''], chanCap = 1\<rparr>))) =
     [''data/kick_xqc_20251230_0930.jsonl''] \<and>
   disk (snd (rotateFile (quietEnv (clockAt 31 40 100) [''twitch_ludwig'']) ''twitch_ludwig''
       \<lparr>fileHandle = 0, writerErr = False, createdAt = clockAt 30 5 5, bytesWritten = 6,
        messageBuffer = [chatMessage ''ludwig'' ''gg''], platform = ''twitch'',
        channel = ''ludwig'', filename = ''twitch_ludwig_20251230_1030.jsonl''\<rparr>
       (New ''data'' 100 60 100,
        \<lparr>disk = [''data/twitch_ludwig_20251230_1030.jsonl'' \<mapsto> ''hello!''],
         handles = [(''data/twitch_ludwig_20251230_1030.jsonl'', True)],
         fileChan = [''data/kick_xqc_20251230_0930.jsonl''], chanCap = 1\<rparr>)))
     ''data/twitch_ludwig_20251230_1030.jsonl'' =
     Some (''hello!'' @ jsonObject (chatMessage ''ludwig'' ''gg'') @ [CHR 0x0A]) \<and>
   (\<exists>newFw. currentFiles (fst (rotateFile (quietEnv (clockAt 31 40 100) [''twitch_ludwig''])
       ''twitch_ludwig''
       \<lparr>fileHandle = 0, writerErr = False, createdAt = clockAt 30 5 5, bytesWritten = 6,
        messageBuffer = [chatMessage ''ludwig'' ''gg''], platform = ''twitch'',
        channel = ''ludwig'', filename = ''twitch_ludwig_20251230_1030.jsonl''\<rparr>
       (New ''data'' 100 60 100,
        \<lparr>disk = [''data/twitch_ludwig_20251230_1030.jsonl'' \<mapsto> ''hello!''],
         handles = [(''data/twitch_ludwig_20251230_1030.jsonl'', True)],
         fileChan = [''data/kick_xqc_20251230_0930.jsonl''], chanCap = 1\<rparr>))) ''twitch_ludwig'' =
       Some newFw \<and> fileHandle newFw = 1 \<and> messageBuffer newFw = [])"
proof -
  let ?env = "quietEnv (clockAt 31 40 100) [''twitch_ludwig'']"
  let ?r = "New ''data'' 100 60 100"
  let ?P = "''data/twitch_ludwig_20251230_1030.jsonl''"
  let ?fw = "\<lparr>fileHandle = 0, writerErr = False, createdAt = clockAt 30 5 5, bytesWritten = 6,
        messageBuffer = [chatMessage ''ludwig'' ''gg''], platform = ''twitch'',
        channel = ''ludwig'', filename = ''twitch_ludwig_20251230_1030.jsonl''\<rparr>"
  let ?w = "\<lparr>disk = [?P \<mapsto> ''hello!''], handles = [(?P, True)],
         fileChan = [''data/kick_xqc_20251230_0930.jsonl''], chanCap = 1\<rparr>"
  obtain r' w' where rot: "rotateFile ?env ''twitch_ludwig'' ?fw (?r, ?w) = (r', w')"
    by (cases "rotateFile ?env ''twitch_ludwig'' ?fw (?r, ?w)")
  have full: "chanCap ?w \<le> length (fileChan ?w)" by simp
  note t = rotateFile_full_queue[OF full rot]
  have old: "Join (outputDir ?r) (filename ?fw) = ?P"
    by (simp add: New_example Join_data)
  have new: "segmentName (platform ?fw) (channel ?fw) (now ?env) =
      ''twitch_ludwig_20251230_1031.jsonl''"
    by (simp add: quietEnv_def segmentName_1031)
  from t have q: "fileChan w' = fileChan ?w" by blast
  have cc: "canCreate ?env (Join (outputDir ?r) (segmentName (platform ?fw) (channel ?fw) (now ?env)))"
    by (simp add: quietEnv_def)
  from t cc have inst: "\<exists>newFw. currentFiles r' ''twitch_ludwig'' = Some newFw \<and>
      fileHandle newFw = length (handles ?w) \<and> messageBuffer newFw = []"
    by blast
  have healthy: "isOpen ?w (fileHandle ?fw) \<and> \<not> writerErr ?fw \<and>
      ioFault ?env (fileHandle ?fw) = None \<and>
      pathOf ?w (fileHandle ?fw) = Join (outputDir ?r) (filename ?fw) \<and>
      disk ?w (Join (outputDir ?r) (filename ?fw)) = Some ''hello!'' \<and>
      segmentName (platform ?fw) (channel ?fw) (now ?env) \<noteq> filename ?fw"
    unfolding new old by (simp add: isOpen_def pathOf_def quietEnv_def)
  from t healthy have "disk w' (Join (outputDir ?r) (filename ?fw)) =
      Some (''hello!'' @ encodeLines (marshal ?env) (messageBuffer ?fw))"
    by blast
  then have d: "disk w' ?P = Some (''hello!'' @ jsonObject (chatMessage ''ludwig'' ''gg'') @ [CHR 0x0A])"
    unfolding old by (simp add: encodeLines_def quietEnv_def)
  from inst have inst': "\<exists>newFw. currentFiles r' ''twitch_ludwig'' = Some newFw \<and>
      fileHandle newFw = 1 \<and> messageBuffer newFw = []"
    by simp
  from q have q': "fileChan w' = [''data/kick_xqc_20251230_0930.jsonl'']" by simp
  have r'_eq: "r' = fst (rotateFile ?env ''twitch_ludwig'' ?fw (?r, ?w))"
    and w'_eq: "w' = snd (rotateFile ?env ''twitch_ludwig'' ?fw (?r, ?w))"
    by (simp_all only: rot fst_conv snd_conv)
  from q' d inst' show ?thesis unfolding r'_eq w'_eq by (intro conjI)
qed

theorem failed_rotation_removes_writer_and_next_message_recreates_witness:
  "currentFiles (fst (rotateFile
       ((quietEnv (clockAt 31 40 100) [''twitch_ludwig''])\<lparr>canCreate := (\<lambda>path. False)\<rparr>)
       ''twitch_ludwig''
       \<lparr>fileHandle = 0, writerErr = False, createdAt = clockAt 30 5 5, bytesWritten = 6,
        messageBuffer = [], platform = ''twitch'',
        channel = ''ludwig'', filename = ''twitch_ludwig_20251230_1030.jsonl''\<rparr>
       (New ''data'' 100 60 100,
        \<lparr>disk = [''data/twitch_ludwig_20251230_1030.jsonl'' \<mapsto> ''hello!''],
         handles = [(''data/twitch_ludwig_20251230_1030.jsonl'', True)],
         fileChan = [], chanCap = 100\<rparr>))) ''twitch_ludwig'' = None \<and>
   (\<exists>fw2. currentFiles (fst (snd (recordMessage (quietEnv (clockAt 31 50 110) [''twitch_ludwig''])
       (chatMessage ''ludwig'' ''gg'')
       (rotateFile
         ((quietEnv (clockAt 31 40 100) [''twitch_ludwig''])\<lparr>canCreate := (\<lambda>path. False)\<rparr>)
         ''twitch_ludwig''
         \<lparr>fileHandle = 0, writerErr = False, createdAt = clockAt 30 5 5, bytesWritten = 6,
          messageBuffer = [], platform = ''twitch'',
          channel = ''ludwig'', filename = ''twitch_ludwig_20251230_1030.jsonl''\<rparr>
         (New ''data'' 100 60 100,
          \<lparr>disk = [''data/twitch_ludwig_20251230_1030.jsonl'' \<mapsto> ''hello!''],
           handles = [(''data/twitch_ludwig_20251230_1030.jsonl'', True)],
           fileChan = [], chanCap = 100\<rparr>))))) ''twitch_ludwig'' = Some fw2 \<and>
      fileHandle fw2 = 1 \<and> messageBuffer fw2 = [chatMessage ''ludwig'' ''gg''])"
proof -
  let ?env = "(quietEnv (clockAt 31 40 100) [''twitch_ludwig''])\<lparr>canCreate := (\<lambda>path. False)\<rparr>"
  let ?env2 = "quietEnv (clockAt 31 50 110) [''twitch_ludwig'']"
  let ?r = "New ''data'' 100 60 100"
  let ?P = "''data/twitch_ludwig_20251230_1030.jsonl''"
  let ?fw = "\<lparr>fileHandle = 0, writerErr = False, createdAt = clockAt 30 5 5, bytesWritten = 6,
        messageBuffer = [], platform = ''twitch'',
        channel = ''ludwig'', filename = ''twitch_ludwig_20251230_1030.jsonl''\<rparr>"
  let ?w = "\<lparr>disk = [?P \<mapsto> ''hello!''], handles = [(?P, True)], fileChan = [], chanCap = 100\<rparr>"
  let ?msg = "chatMessage ''ludwig'' ''gg''"
  obtain r1 w1 where rot: "rotateFile ?env ''twitch_ludwig'' ?fw (?r, ?w) = (r1, w1)"
    by (cases "rotateFile ?env ''twitch_ludwig'' ?fw (?r, ?w)")
  obtain err r2 w2 where rec: "recordMessage ?env2 ?msg (r1, w1) = (err, r2, w2)"
    by (cases "recordMessage ?env2 ?msg (r1, w1)")
  have nc: "\<not> canCreate ?env
      (Join (outputDir ?r) (segmentName (platform ?fw) (channel ?fw) (now ?env)))"
    by (simp add: quietEnv_def)
  have key: "Platform ?msg @ ''_'' @ Channel ?msg = ''twitch_ludwig''"
    by (simp add: chatMessage_def)
  have ok: "canCreate ?env2
      (Join (outputDir ?r) (segmentName (Platform ?msg) (Channel ?msg) (now ?env2)))"
    by (simp add: quietEnv_def)
  note t = failed_rotation_removes_writer_and_next_message_recreates[OF nc rot key ok rec]
  have big: "1 < bufferSize ?r" by (simp add: New_example)
  from t have n: "currentFiles r1 ''twitch_ludwig'' = None" by blast
  from t big have "\<exists>fw2. currentFiles r2 ''twitch_ludwig'' = Some fw2 \<and>
      fileHandle fw2 = length (handles ?w) \<and> messageBuffer fw2 = [?msg]"
    by auto
  then have i: "\<exists>fw2. currentFiles r2 ''twitch_ludwig'' = Some fw2 \<and>
      fileHandle fw2 = 1 \<and> messageBuffer fw2 = [?msg]"
    by simp
  have r1_eq: "r1 = fst (rotateFile ?env ''twitch_ludwig'' ?fw (?r, ?w))"
    by (simp only: rot fst_conv)
  have r2_eq: "r2 = fst (snd (recordMessage ?env2 ?msg
      (rotateFile ?env ''twitch_ludwig'' ?fw (?r, ?w))))"
    by (simp only: rot rec fst_conv snd_conv)
  from n i show ?thesis unfolding r1_eq r2_eq by (intro conjI)
qed


section \<open>Rounding to \<open>float64\<close>\<close>

text \<open>
  What the rotation check needs of the arithmetic: a conversion of a small integer is
  exact, a sum or quotient is within half a unit in the last place of the exact one, and
  rounding does not cross a number that is itself a \<open>float64\<close>.
\<close>

lemma roundEven_floor: "0 < d \<Longrightarrow> n div d \<le> roundEven n d \<and> roundEven n d \<le> n div d + 1"
  by (simp add: roundEven_def Let_def)

lemma div_as_floor: "real_of_int (n div d) = of_int \<lfloor>real_of_int n / real_of_int d\<rfloor>"
  by (simp add: floor_divide_of_int_eq)

lemma roundEven_ge:
  assumes "0 < d" "real_of_int z \<le> real_of_int n / real_of_int d"
  shows "z \<le> roundEven n d"
proof -
  from assms(2) have "z \<le> \<lfloor>real_of_int n / real_of_int d\<rfloor>" by (simp add: le_floor_iff)
  then have "z \<le> n div d" by (simp add: floor_divide_of_int_eq)
  with roundEven_floor[OF assms(1), of n] show ?thesis by linarith
qed

lemma mod_as_real:
  assumes "0 < d"
  shows "real_of_int (n mod d) = real_of_int n - real_of_int d * real_of_int (n div d)"
proof -
  have "n mod d = n - d * (n div d)" by (simp add: minus_mult_div_eq_mod)
  then show ?thesis by (metis of_int_diff of_int_mult)
qed

lemma roundEven_le:
  assumes "0 < d" "real_of_int n / real_of_int d \<le> real_of_int z"
  shows "roundEven n d \<le> z"
proof (cases "n mod d = 0")
  case True
  then have "roundEven n d = n div d" using assms(1) by (simp add: roundEven_def Let_def)
  moreover have "\<lfloor>real_of_int n / real_of_int d\<rfloor> \<le> z" using assms(2) by (simp add: floor_le_iff)
  ultimately show ?thesis by (simp add: floor_divide_of_int_eq)
next
  case False
  have "0 < n mod d" using False assms(1) pos_mod_sign[of d n] by linarith
  then have "real_of_int n - real_of_int d * real_of_int (n div d) > 0"
    using mod_as_real[OF assms(1), of n] by linarith
  then have "real_of_int (n div d) < real_of_int n / real_of_int d"
    using assms(1) by (simp add: field_simps)
  with assms(2) have "real_of_int (n div d) < real_of_int z" by linarith
  then have "n div d + 1 \<le> z" by linarith
  with roundEven_floor[OF assms(1), of n] show ?thesis by linarith
qed

lemma roundEven_err:
  assumes "0 < d"
  shows "\<bar>real_of_int (roundEven n d) - real_of_int n / real_of_int d\<bar> \<le> 1 / 2"
proof -
  let ?f = "n div d" and ?r = "n mod d"
  have x: "real_of_int n / real_of_int d = real_of_int ?f + real_of_int ?r / real_of_int d"
    using assms mod_as_real[OF assms, of n] by (simp add: field_simps)
  have r0: "0 \<le> ?r" and rd: "?r < d" using assms by simp_all
  have q0: "0 \<le> real_of_int ?r / real_of_int d" using r0 assms by simp
  have q1: "real_of_int ?r / real_of_int d < 1" using rd assms by simp
  consider "2 * ?r < d" | "d < 2 * ?r" | "2 * ?r = d" by linarith
  then show ?thesis
  proof cases
    case 1
    then have e: "roundEven n d = ?f" by (simp add: roundEven_def Let_def)
    from 1 have "2 * real_of_int ?r < real_of_int d" by linarith
    then have "real_of_int ?r / real_of_int d < 1 / 2" using assms by (simp add: field_simps)
    with q0 show ?thesis unfolding e x by simp
  next
    case 2
    then have e: "roundEven n d = ?f + 1" by (simp add: roundEven_def Let_def)
    from 2 have "real_of_int d < 2 * real_of_int ?r" by linarith
    then have "1 / 2 < real_of_int ?r / real_of_int d" using assms by (simp add: field_simps)
    with q1 show ?thesis unfolding e x by simp
  next
    case 3
    then have "2 * real_of_int ?r = real_of_int d" by linarith
    then have h: "real_of_int ?r / real_of_int d = 1 / 2" using assms by (simp add: field_simps)
    have "roundEven n d = ?f \<or> roundEven n d = ?f + 1" using 3 by (simp add: roundEven_def Let_def)
    then show ?thesis unfolding x h by auto
  qed
qed

lemma scaled_ratio:
  assumes "0 < q" "scaled p q k = (n, d)"
  shows "0 < d" "real_of_int n / real_of_int d = (real_of_int p / real_of_int q) * 2 powi (- k)"
proof -
  show "0 < d" using assms by (auto simp: scaled_def split: if_splits)
  show "real_of_int n / real_of_int d = (real_of_int p / real_of_int q) * 2 powi (- k)"
  proof (cases "k < 0")
    case True
    then have "n = p * 2 ^ nat (- k)" "d = q" using assms(2) by (auto simp: scaled_def)
    moreover have "(2::real) powi (- k) = 2 ^ nat (- k)" using True by (simp add: power_int_def)
    ultimately show ?thesis by simp
  next
    case False
    then have nd: "n = p" "d = q * 2 ^ nat k" using assms(2) by (auto simp: scaled_def)
    have e: "(2::real) powi (- k) = inverse (2 ^ nat k)" using False
      by (simp add: power_int_minus power_int_nonneg_exp)
    show ?thesis unfolding nd e by (simp add: divide_simps)
  qed
qed

lemma bitlen_real_bounds:
  assumes "0 < x"
  shows "2 powi (bitlen x - 1) \<le> real_of_int x" "real_of_int x < 2 powi (bitlen x)"
proof -
  from assms have b: "1 \<le> bitlen x" by (auto simp: bitlen_alt_def)
  from bitlen_bounds[OF assms] have l: "2 ^ nat (bitlen x - 1) \<le> x" and u: "x < 2 ^ nat (bitlen x)"
    by simp_all
  have "(2::real) powi (bitlen x - 1) = 2 ^ nat (bitlen x - 1)" using b by (simp add: power_int_def)
  also have "\<dots> = real_of_int (2 ^ nat (bitlen x - 1))" by simp
  also have "\<dots> \<le> real_of_int x" using l by (simp only: of_int_le_iff)
  finally show "2 powi (bitlen x - 1) \<le> real_of_int x" .
  have "real_of_int x < real_of_int (2 ^ nat (bitlen x))" using u by (simp only: of_int_less_iff)
  also have "\<dots> = 2 ^ nat (bitlen x)" by simp
  also have "\<dots> = (2::real) powi (bitlen x)" using b by (simp add: power_int_def)
  finally show "real_of_int x < 2 powi (bitlen x)" .
qed

lemma ratio_lower:
  assumes "p \<noteq> 0" "0 < q"
  shows "2 powi (bitlen \<bar>p\<bar> - bitlen q - 1) < \<bar>real_of_int p / real_of_int q\<bar>"
proof -
  have p: "0 < \<bar>p\<bar>" using assms(1) by simp
  from bitlen_real_bounds(1)[OF p] have l: "2 powi (bitlen \<bar>p\<bar> - 1) \<le> \<bar>real_of_int p\<bar>" by simp
  from bitlen_real_bounds(2)[OF assms(2)] have u: "real_of_int q < 2 powi (bitlen q)" .
  have q: "0 < real_of_int q" using assms(2) by simp
  have "(2::real) powi (bitlen \<bar>p\<bar> - bitlen q - 1) = 2 powi (bitlen \<bar>p\<bar> - 1) / 2 powi (bitlen q)"
    by (simp add: power_int_diff)
  also have "\<dots> \<le> \<bar>real_of_int p\<bar> / 2 powi (bitlen q)"
    using l by (simp add: divide_right_mono)
  also have "\<dots> < \<bar>real_of_int p\<bar> / real_of_int q"
    using u q p by (simp add: divide_strict_left_mono)
  finally show ?thesis using q by simp
qed

lemma r53_zero: "roundTo53 0 q = \<lparr>mant = 0, expo = 0\<rparr>"
  by (simp add: roundTo53_def)

lemma r53_props:
  assumes "p \<noteq> 0" "0 < q"
  obtains n d where "scaled p q (expo (roundTo53 p q)) = (n, d)"
    and "mant (roundTo53 p q) = roundEven n d"
    and "2 ^ 52 \<le> \<bar>real_of_int n / real_of_int d\<bar>"
proof -
  define k0 where "k0 = bitlen \<bar>p\<bar> - bitlen q - 53"
  obtain n0 d0 where s0: "scaled p q k0 = (n0, d0)" by (cases "scaled p q k0")
  define k where "k = (if \<bar>n0\<bar> < 2 ^ 53 * d0 then k0 else k0 + 1)"
  obtain n d where s: "scaled p q k = (n, d)" by (cases "scaled p q k")
  have r: "roundTo53 p q = \<lparr>mant = roundEven n d, expo = k\<rparr>"
    using assms(1) s0 s
    by (cases "\<bar>n0\<bar> < 2 ^ 53 * d0") (simp_all add: roundTo53_def Let_def k0_def[symmetric] k_def)
  have d0: "0 < d0" and q0: "real_of_int n0 / real_of_int d0 = (real_of_int p / real_of_int q) * 2 powi (- k0)"
    using scaled_ratio[OF assms(2) s0] by simp_all
  have d: "0 < d" and q: "real_of_int n / real_of_int d = (real_of_int p / real_of_int q) * 2 powi (- k)"
    using scaled_ratio[OF assms(2) s] by simp_all
  have "2 powi (k0 + 52) < \<bar>real_of_int p / real_of_int q\<bar>"
    using ratio_lower[OF assms] by (simp add: k0_def)
  then have "2 powi (k0 + 52) * 2 powi (- k0) < \<bar>real_of_int p / real_of_int q\<bar> * 2 powi (- k0)"
    by (rule mult_strict_right_mono) simp
  moreover have "(2::real) powi (k0 + 52) * 2 powi (- k0) = 2 ^ 52"
    by (simp add: power_int_add[symmetric])
  ultimately have low0: "2 ^ 52 < \<bar>real_of_int n0 / real_of_int d0\<bar>"
    by (simp add: q0 abs_mult)
  have "2 ^ 52 \<le> \<bar>real_of_int n / real_of_int d\<bar>"
  proof (cases "\<bar>n0\<bar> < 2 ^ 53 * d0")
    case True
    then have "k = k0" by (simp add: k_def)
    with s s0 have "n = n0" "d = d0" by simp_all
    with low0 show ?thesis by simp
  next
    case False
    then have k: "k = k0 + 1" by (simp add: k_def)
    from False have "2 ^ 53 * d0 \<le> \<bar>n0\<bar>" by simp
    then have "real_of_int (2 ^ 53 * d0) \<le> real_of_int \<bar>n0\<bar>" by (simp only: of_int_le_iff)
    then have "2 ^ 53 * real_of_int d0 \<le> \<bar>real_of_int n0\<bar>" by simp
    then have big: "2 ^ 53 \<le> \<bar>real_of_int n0 / real_of_int d0\<bar>"
      using d0 by (simp add: field_simps)
    have e: "(2::real) powi (- k) = 2 powi (- k0) / 2"
      unfolding k by (simp add: power_int_diff)
    have "real_of_int n / real_of_int d = (real_of_int n0 / real_of_int d0) / 2"
      unfolding q q0 e by simp
    with big show ?thesis by simp
  qed
  with s r that show ?thesis by simp
qed

lemma unscale: "(x * 2 powi (- k)) * 2 powi k = (x::real)"
  by (simp add: power_int_minus field_simps)

lemma r53_err:
  assumes "0 < q"
  shows "\<bar>valof (roundTo53 p q) - real_of_int p / real_of_int q\<bar> \<le> 2 powi (expo (roundTo53 p q) - 1)"
proof (cases "p = 0")
  case True
  then show ?thesis by (simp add: r53_zero valof_def)
next
  case False
  let ?k = "expo (roundTo53 p q)"
  from r53_props[OF False assms] obtain n d where s: "scaled p q ?k = (n, d)"
    and m: "mant (roundTo53 p q) = roundEven n d" by blast
  have d: "0 < d" and q: "real_of_int n / real_of_int d = (real_of_int p / real_of_int q) * 2 powi (- ?k)"
    using scaled_ratio[OF assms s] by simp_all
  have x: "real_of_int p / real_of_int q = (real_of_int n / real_of_int d) * 2 powi ?k"
    unfolding q by (simp add: unscale)
  have "valof (roundTo53 p q) - real_of_int p / real_of_int q =
      (real_of_int (roundEven n d) - real_of_int n / real_of_int d) * 2 powi ?k"
    unfolding x by (simp add: valof_def m algebra_simps)
  then have "\<bar>valof (roundTo53 p q) - real_of_int p / real_of_int q\<bar> =
      \<bar>real_of_int (roundEven n d) - real_of_int n / real_of_int d\<bar> * 2 powi ?k"
    by (simp add: abs_mult)
  also have "\<dots> \<le> (1 / 2) * 2 powi ?k"
    using roundEven_err[OF d, of n] by (intro mult_right_mono) simp_all
  also have "\<dots> = 2 powi (?k - 1)" by (simp add: power_int_diff)
  finally show ?thesis .
qed

lemma r53_expo_le:
  assumes "p \<noteq> 0" "0 < q" "\<bar>real_of_int p / real_of_int q\<bar> < 2 powi j"
  shows "expo (roundTo53 p q) \<le> j - 53"
proof -
  let ?k = "expo (roundTo53 p q)"
  from r53_props[OF assms(1,2)] obtain n d where s: "scaled p q ?k = (n, d)"
    and low: "2 ^ 52 \<le> \<bar>real_of_int n / real_of_int d\<bar>" by blast
  have q: "real_of_int n / real_of_int d = (real_of_int p / real_of_int q) * 2 powi (- ?k)"
    using scaled_ratio[OF assms(2) s] by simp
  have "2 powi 52 \<le> \<bar>real_of_int p / real_of_int q\<bar> * 2 powi (- ?k)"
    using low by (simp add: q abs_mult)
  also have "\<dots> < 2 powi j * 2 powi (- ?k)"
    using assms(3) by (rule mult_strict_right_mono) simp
  also have "\<dots> = 2 powi (j - ?k)" by (simp add: power_int_diff power_int_minus field_simps)
  finally have lt: "(2::real) powi 52 < 2 powi (j - ?k)" .
  have "52 < j - ?k"
  proof (rule ccontr)
    assume "\<not> 52 < j - ?k"
    then have "j - ?k \<le> 52" by simp
    then have "(2::real) powi (j - ?k) \<le> 2 powi 52" by (intro power_int_increasing) simp_all
    with lt show False by linarith
  qed
  then show ?thesis by simp
qed

lemma r53_err_bound:
  assumes "0 < q" "\<bar>real_of_int p / real_of_int q\<bar> < 2 powi j"
  shows "\<bar>valof (roundTo53 p q) - real_of_int p / real_of_int q\<bar> \<le> 2 powi (j - 54)"
proof (cases "p = 0")
  case True
  then show ?thesis by (simp add: r53_zero valof_def)
next
  case False
  have "\<bar>valof (roundTo53 p q) - real_of_int p / real_of_int q\<bar> \<le> 2 powi (expo (roundTo53 p q) - 1)"
    using assms(1) by (rule r53_err)
  also have "\<dots> \<le> 2 powi (j - 54)"
    using r53_expo_le[OF False assms] by (intro power_int_increasing) simp_all
  finally show ?thesis .
qed

lemma valof_scale: "valof \<lparr>mant = m, expo = k + e\<rparr> = valof \<lparr>mant = m, expo = k\<rparr> * 2 powi e"
  by (simp add: valof_def power_int_add)

lemma grid_shift:
  assumes "k \<le> i"
  shows "real_of_int z * 2 powi i * 2 powi (- k) = real_of_int (z * 2 ^ nat (i - k))"
proof -
  have "(2::real) powi i * 2 powi (- k) = 2 powi (i - k)"
    by (simp add: power_int_diff power_int_minus field_simps)
  also have "\<dots> = 2 ^ nat (i - k)" using assms by (simp add: power_int_nonneg_exp)
  finally show ?thesis by (simp add: mult.assoc)
qed

lemma r53_grid_ge:
  assumes "0 < q" "p \<noteq> 0 \<Longrightarrow> expo (roundTo53 p q) \<le> i"
    and "real_of_int z * 2 powi i \<le> real_of_int p / real_of_int q"
  shows "real_of_int z * 2 powi i \<le> valof (roundTo53 p q)"
proof (cases "p = 0")
  case True
  with assms(3) show ?thesis by (simp add: r53_zero valof_def)
next
  case False
  let ?k = "expo (roundTo53 p q)"
  from r53_props[OF False assms(1)] obtain n d where s: "scaled p q ?k = (n, d)"
    and m: "mant (roundTo53 p q) = roundEven n d" by blast
  have d: "0 < d" and q: "real_of_int n / real_of_int d = (real_of_int p / real_of_int q) * 2 powi (- ?k)"
    using scaled_ratio[OF assms(1) s] by simp_all
  have ki: "?k \<le> i" using False by (rule assms(2))
  have "real_of_int z * 2 powi i * 2 powi (- ?k) \<le> (real_of_int p / real_of_int q) * 2 powi (- ?k)"
    using assms(3) by (rule mult_right_mono) simp
  then have "real_of_int (z * 2 ^ nat (i - ?k)) \<le> real_of_int n / real_of_int d"
    by (simp only: grid_shift[OF ki] q)
  then have "z * 2 ^ nat (i - ?k) \<le> roundEven n d" using d by (intro roundEven_ge)
  then have "real_of_int (z * 2 ^ nat (i - ?k)) \<le> real_of_int (roundEven n d)"
    by (simp only: of_int_le_iff)
  then have a: "real_of_int (z * 2 ^ nat (i - ?k)) * 2 powi ?k \<le> real_of_int (roundEven n d) * 2 powi ?k"
    by (rule mult_right_mono) simp
  have b: "real_of_int (z * 2 ^ nat (i - ?k)) * 2 powi ?k = real_of_int z * 2 powi i"
    unfolding grid_shift[OF ki, symmetric] by (rule unscale)
  from a have "real_of_int z * 2 powi i \<le> real_of_int (roundEven n d) * 2 powi ?k"
    unfolding b .
  then show ?thesis unfolding valof_def m .
qed

lemma r53_grid_le:
  assumes "0 < q" "p \<noteq> 0 \<Longrightarrow> expo (roundTo53 p q) \<le> i"
    and "real_of_int p / real_of_int q \<le> real_of_int z * 2 powi i"
  shows "valof (roundTo53 p q) \<le> real_of_int z * 2 powi i"
proof (cases "p = 0")
  case True
  with assms(3) show ?thesis by (simp add: r53_zero valof_def)
next
  case False
  let ?k = "expo (roundTo53 p q)"
  from r53_props[OF False assms(1)] obtain n d where s: "scaled p q ?k = (n, d)"
    and m: "mant (roundTo53 p q) = roundEven n d" by blast
  have d: "0 < d" and q: "real_of_int n / real_of_int d = (real_of_int p / real_of_int q) * 2 powi (- ?k)"
    using scaled_ratio[OF assms(1) s] by simp_all
  have ki: "?k \<le> i" using False by (rule assms(2))
  have "(real_of_int p / real_of_int q) * 2 powi (- ?k) \<le> real_of_int z * 2 powi i * 2 powi (- ?k)"
    using assms(3) by (rule mult_right_mono) simp
  then have "real_of_int n / real_of_int d \<le> real_of_int (z * 2 ^ nat (i - ?k))"
    by (simp only: grid_shift[OF ki] q)
  then have "roundEven n d \<le> z * 2 ^ nat (i - ?k)" using d by (intro roundEven_le)
  then have "real_of_int (roundEven n d) \<le> real_of_int (z * 2 ^ nat (i - ?k))"
    by (simp only: of_int_le_iff)
  then have a: "real_of_int (roundEven n d) * 2 powi ?k \<le> real_of_int (z * 2 ^ nat (i - ?k)) * 2 powi ?k"
    by (rule mult_right_mono) simp
  have b: "real_of_int (z * 2 ^ nat (i - ?k)) * 2 powi ?k = real_of_int z * 2 powi i"
    unfolding grid_shift[OF ki, symmetric] by (rule unscale)
  from a have "real_of_int (roundEven n d) * 2 powi ?k \<le> real_of_int z * 2 powi i"
    unfolding b .
  then show ?thesis unfolding valof_def m .
qed

lemma r53_nonneg:
  assumes "0 < q" "0 \<le> p"
  shows "0 \<le> valof (roundTo53 p q)"
proof -
  have "real_of_int 0 * 2 powi (expo (roundTo53 p q)) \<le> valof (roundTo53 p q)"
    using assms by (intro r53_grid_ge) simp_all
  then show ?thesis by simp
qed

lemma r53_nonpos:
  assumes "0 < q" "p \<le> 0"
  shows "valof (roundTo53 p q) \<le> 0"
proof -
  have "valof (roundTo53 p q) \<le> real_of_int 0 * 2 powi (expo (roundTo53 p q))"
    using assms by (intro r53_grid_le) (simp_all add: divide_nonpos_pos)
  then show ?thesis by simp
qed

lemma r53_neg:
  assumes "0 < q" "p < 0"
  shows "valof (roundTo53 p q) < 0"
proof -
  let ?k = "expo (roundTo53 p q)"
  from assms(2) have pn: "p \<noteq> 0" by simp
  from r53_props[OF pn assms(1)] obtain n d where s: "scaled p q ?k = (n, d)"
    and m: "mant (roundTo53 p q) = roundEven n d"
    and low: "2 ^ 52 \<le> \<bar>real_of_int n / real_of_int d\<bar>" by blast
  have d: "0 < d" and q: "real_of_int n / real_of_int d = (real_of_int p / real_of_int q) * 2 powi (- ?k)"
    using scaled_ratio[OF assms(1) s] by simp_all
  have "real_of_int p / real_of_int q < 0" using assms by (simp add: divide_neg_pos)
  then have "real_of_int n / real_of_int d < 0" unfolding q by (rule mult_neg_pos) simp
  with low have "real_of_int n / real_of_int d \<le> real_of_int (- 1)" by simp
  then have "roundEven n d \<le> - 1" using d by (intro roundEven_le)
  then have "real_of_int (roundEven n d) < 0" by simp
  then show ?thesis by (simp add: valof_def m mult_neg_pos)
qed

lemma fromInt_exact:
  assumes "\<bar>n\<bar> < 2 ^ 53"
  shows "valof (fromInt n) = real_of_int n"
proof -
  have b: "\<bar>real_of_int n / real_of_int 1\<bar> < 2 powi 53"
  proof -
    from assms have "real_of_int \<bar>n\<bar> < real_of_int (2 ^ 53)" by (simp only: of_int_less_iff)
    then show ?thesis by simp
  qed
  have k: "n \<noteq> 0 \<Longrightarrow> expo (roundTo53 n 1) \<le> 0"
    using r53_expo_le[of n 1 53, OF _ _ b] by simp
  have "real_of_int n * 2 powi 0 \<le> valof (roundTo53 n 1)"
    using k by (intro r53_grid_ge) simp_all
  moreover have "valof (roundTo53 n 1) \<le> real_of_int n * 2 powi 0"
    using k by (intro r53_grid_le) simp_all
  ultimately show ?thesis by (simp add: fromInt_def)
qed

lemma valof_align:
  assumes "e \<le> expo x"
  shows "valof x = real_of_int (mant x * 2 ^ nat (expo x - e)) * 2 powi e"
proof -
  have "(2::real) powi expo x = 2 powi (expo x - e) * 2 powi e"
    by (simp add: power_int_add[symmetric])
  also have "(2::real) powi (expo x - e) = 2 ^ nat (expo x - e)"
    using assms by (simp add: power_int_nonneg_exp)
  finally show ?thesis by (simp add: valof_def)
qed

lemma fge_iff: "fge x y \<longleftrightarrow> valof y \<le> valof x"
proof -
  let ?e = "min (expo x) (expo y)"
  have x: "valof x = real_of_int (mant x * 2 ^ nat (expo x - ?e)) * 2 powi ?e"
    by (rule valof_align) simp
  have y: "valof y = real_of_int (mant y * 2 ^ nat (expo y - ?e)) * 2 powi ?e"
    by (rule valof_align) simp
  have "valof y \<le> valof x \<longleftrightarrow>
      real_of_int (mant y * 2 ^ nat (expo y - ?e)) \<le> real_of_int (mant x * 2 ^ nat (expo x - ?e))"
    unfolding x y by (rule mult_le_cancel_right_pos) simp
  also have "\<dots> \<longleftrightarrow> mant y * 2 ^ nat (expo y - ?e) \<le> mant x * 2 ^ nat (expo x - ?e)"
    by (rule of_int_le_iff)
  finally show ?thesis by (simp add: fge_def Let_def)
qed

lemma two_powi_sign [simp]:
  "0 < (2::real) powi e" "\<not> (2::real) powi e < 0" "\<not> (2::real) powi e \<le> 0"
  "\<bar>(2::real) powi e\<bar> = 2 powi e"
proof -
  show p: "0 < (2::real) powi e" by (rule zero_less_power_int) simp
  from p show "\<not> (2::real) powi e < 0" by (rule less_not_sym)
  from p show "\<not> (2::real) powi e \<le> 0" by (simp only: not_le)
  from p show "\<bar>(2::real) powi e\<bar> = 2 powi e" by (rule abs_of_pos)
qed

lemma unscale': "(x * 2 powi k) * 2 powi (- k) = (x::real)"
  by (simp add: power_int_minus field_simps)

lemma fadd_parts:
  obtains N e where "valof x + valof y = real_of_int N * 2 powi e"
    and "valof (fadd x y) = valof (roundTo53 N 1) * 2 powi e"
proof -
  let ?e = "min (expo x) (expo y)"
  let ?N = "mant x * 2 ^ nat (expo x - ?e) + mant y * 2 ^ nat (expo y - ?e)"
  have x: "valof x = real_of_int (mant x * 2 ^ nat (expo x - ?e)) * 2 powi ?e"
    by (rule valof_align) simp
  have y: "valof y = real_of_int (mant y * 2 ^ nat (expo y - ?e)) * 2 powi ?e"
    by (rule valof_align) simp
  have s: "valof x + valof y = real_of_int ?N * 2 powi ?e"
    unfolding x y by (simp only: of_int_add distrib_right)
  have "fadd x y = \<lparr>mant = mant (roundTo53 ?N 1), expo = expo (roundTo53 ?N 1) + ?e\<rparr>"
    by (simp add: fadd_def Let_def)
  then have v: "valof (fadd x y) = valof (roundTo53 ?N 1) * 2 powi ?e"
    by (simp add: valof_def power_int_add)
  from s v that show ?thesis by blast
qed

lemma scale_abs_less:
  assumes "\<bar>N * 2 powi e\<bar> < (2::real) powi j"
  shows "\<bar>N\<bar> < 2 powi (j - e)"
proof -
  have "\<bar>N * 2 powi e\<bar> * 2 powi (- e) < 2 powi j * 2 powi (- e)"
    using assms by (rule mult_strict_right_mono) simp
  moreover have "\<bar>N * 2 powi e\<bar> * 2 powi (- e) = \<bar>N\<bar>"
    by (simp add: abs_mult power_int_minus)
  moreover have "(2::real) powi j * 2 powi (- e) = 2 powi (j - e)"
    by (simp add: power_int_diff power_int_minus field_simps)
  ultimately show ?thesis by simp
qed

lemma fadd_err:
  assumes "\<bar>valof x + valof y\<bar> < 2 powi j"
  shows "\<bar>valof (fadd x y) - (valof x + valof y)\<bar> \<le> 2 powi (j - 54)"
proof -
  from fadd_parts[of x y] obtain N e where s: "valof x + valof y = real_of_int N * 2 powi e"
    and v: "valof (fadd x y) = valof (roundTo53 N 1) * 2 powi e" by blast
  have "\<bar>real_of_int N\<bar> < 2 powi (j - e)" using assms unfolding s by (rule scale_abs_less)
  then have "\<bar>real_of_int N / real_of_int 1\<bar> < 2 powi (j - e)" by simp
  then have "\<bar>valof (roundTo53 N 1) - real_of_int N / real_of_int 1\<bar> \<le> 2 powi (j - e - 54)"
    by (intro r53_err_bound) simp_all
  then have b: "\<bar>valof (roundTo53 N 1) - real_of_int N\<bar> \<le> 2 powi (j - e - 54)" by simp
  have "\<bar>valof (fadd x y) - (valof x + valof y)\<bar> = \<bar>valof (roundTo53 N 1) - real_of_int N\<bar> * 2 powi e"
    unfolding s v by (simp only: left_diff_distrib[symmetric] abs_mult two_powi_sign)
  also have "\<dots> \<le> 2 powi (j - e - 54) * 2 powi e"
    using b by (rule mult_right_mono) simp
  also have "\<dots> = 2 powi (j - 54)" by (simp add: power_int_add[symmetric])
  finally show ?thesis .
qed

lemma fadd_ge_int:
  assumes "\<bar>valof x + valof y\<bar> < 2 powi 53" "real_of_int z \<le> valof x + valof y"
  shows "real_of_int z \<le> valof (fadd x y)"
proof -
  from fadd_parts[of x y] obtain N e where s: "valof x + valof y = real_of_int N * 2 powi e"
    and v: "valof (fadd x y) = valof (roundTo53 N 1) * 2 powi e" by blast
  have "\<bar>real_of_int N\<bar> < 2 powi (53 - e)" using assms(1) unfolding s by (rule scale_abs_less)
  then have n: "\<bar>real_of_int N / real_of_int 1\<bar> < 2 powi (53 - e)" by simp
  have k: "N \<noteq> 0 \<Longrightarrow> expo (roundTo53 N 1) \<le> - e"
    using r53_expo_le[of N 1 "53 - e", OF _ _ n] by simp
  have "real_of_int z * 2 powi (- e) \<le> real_of_int N * 2 powi e * 2 powi (- e)"
    using assms(2) unfolding s by (rule mult_right_mono) simp
  then have "real_of_int z * 2 powi (- e) \<le> real_of_int N / real_of_int 1"
    unfolding unscale' by simp
  then have "real_of_int z * 2 powi (- e) \<le> valof (roundTo53 N 1)"
    using k by (intro r53_grid_ge) simp_all
  then have "real_of_int z * 2 powi (- e) * 2 powi e \<le> valof (roundTo53 N 1) * 2 powi e"
    by (rule mult_right_mono) simp
  then show ?thesis unfolding v unscale .
qed

lemma fadd_le_int:
  assumes "\<bar>valof x + valof y\<bar> < 2 powi 53" "valof x + valof y \<le> real_of_int z"
  shows "valof (fadd x y) \<le> real_of_int z"
proof -
  from fadd_parts[of x y] obtain N e where s: "valof x + valof y = real_of_int N * 2 powi e"
    and v: "valof (fadd x y) = valof (roundTo53 N 1) * 2 powi e" by blast
  have "\<bar>real_of_int N\<bar> < 2 powi (53 - e)" using assms(1) unfolding s by (rule scale_abs_less)
  then have n: "\<bar>real_of_int N / real_of_int 1\<bar> < 2 powi (53 - e)" by simp
  have k: "N \<noteq> 0 \<Longrightarrow> expo (roundTo53 N 1) \<le> - e"
    using r53_expo_le[of N 1 "53 - e", OF _ _ n] by simp
  have "real_of_int N * 2 powi e * 2 powi (- e) \<le> real_of_int z * 2 powi (- e)"
    using assms(2) unfolding s by (rule mult_right_mono) simp
  then have "real_of_int N / real_of_int 1 \<le> real_of_int z * 2 powi (- e)"
    unfolding unscale' by simp
  then have "valof (roundTo53 N 1) \<le> real_of_int z * 2 powi (- e)"
    using k by (intro r53_grid_le) simp_all
  then have "valof (roundTo53 N 1) * 2 powi e \<le> real_of_int z * 2 powi (- e) * 2 powi e"
    by (rule mult_right_mono) simp
  then show ?thesis unfolding v unscale .
qed

lemma fadd_neg:
  assumes "valof x + valof y < 0"
  shows "valof (fadd x y) < 0"
proof -
  from fadd_parts[of x y] obtain N e where s: "valof x + valof y = real_of_int N * 2 powi e"
    and v: "valof (fadd x y) = valof (roundTo53 N 1) * 2 powi e" by blast
  from assms have "real_of_int N * 2 powi e < 0" unfolding s .
  then have "real_of_int N < 0" by (simp add: mult_less_0_iff)
  then have "N < 0" by simp
  then have "valof (roundTo53 N 1) < 0" by (intro r53_neg) simp_all
  then show ?thesis unfolding v by (rule mult_neg_pos) simp
qed

lemma fdiv_parts:
  assumes "0 < mant y"
  shows "valof (fdiv x y) = valof (roundTo53 (mant x) (mant y)) * 2 powi (expo x - expo y)"
    and "valof x / valof y =
      (real_of_int (mant x) / real_of_int (mant y)) * 2 powi (expo x - expo y)"
proof -
  have "fdiv x y = \<lparr>mant = mant (roundTo53 (mant x) (mant y)),
      expo = expo (roundTo53 (mant x) (mant y)) + (expo x - expo y)\<rparr>"
    using assms by (simp add: fdiv_def Let_def)
  then show "valof (fdiv x y) = valof (roundTo53 (mant x) (mant y)) * 2 powi (expo x - expo y)"
    by (simp add: valof_def power_int_add)
  show "valof x / valof y =
      (real_of_int (mant x) / real_of_int (mant y)) * 2 powi (expo x - expo y)"
    by (simp add: valof_def power_int_diff)
qed

lemma fdiv_err:
  assumes "0 < mant y" "\<bar>valof x / valof y\<bar> < 2 powi j"
  shows "\<bar>valof (fdiv x y) - valof x / valof y\<bar> \<le> 2 powi (j - 54)"
proof -
  let ?s = "expo x - expo y"
  note v = fdiv_parts(1)[OF assms(1), of x] and q = fdiv_parts(2)[OF assms(1), of x]
  have "\<bar>real_of_int (mant x) / real_of_int (mant y)\<bar> < 2 powi (j - ?s)"
    using assms(2) unfolding q by (rule scale_abs_less)
  then have b: "\<bar>valof (roundTo53 (mant x) (mant y)) - real_of_int (mant x) / real_of_int (mant y)\<bar>
      \<le> 2 powi (j - ?s - 54)"
    using assms(1) by (intro r53_err_bound)
  have "\<bar>valof (fdiv x y) - valof x / valof y\<bar> =
      \<bar>valof (roundTo53 (mant x) (mant y)) - real_of_int (mant x) / real_of_int (mant y)\<bar> * 2 powi ?s"
    unfolding q v by (simp only: left_diff_distrib[symmetric] abs_mult two_powi_sign)
  also have "\<dots> \<le> 2 powi (j - ?s - 54) * 2 powi ?s"
    using b by (rule mult_right_mono) simp
  also have "\<dots> = 2 powi (j - 54)" by (simp add: power_int_add[symmetric])
  finally show ?thesis .
qed

lemma fdiv_nonneg:
  assumes "0 < mant y" "0 \<le> mant x"
  shows "0 \<le> valof (fdiv x y)"
  unfolding fdiv_parts(1)[OF assms(1)]
  using r53_nonneg[OF assms] by (intro mult_nonneg_nonneg) simp_all

lemma fdiv_nonpos:
  assumes "0 < mant y" "mant x \<le> 0"
  shows "valof (fdiv x y) \<le> 0"
  unfolding fdiv_parts(1)[OF assms(1)]
  using r53_nonpos[OF assms] by (intro mult_nonpos_nonneg) simp_all

lemma fdiv_neg:
  assumes "0 < mant y" "mant x < 0"
  shows "valof (fdiv x y) < 0"
  unfolding fdiv_parts(1)[OF assms(1)]
  using r53_neg[OF assms] by (intro mult_neg_pos) simp_all

lemma valof_sign:
  "0 \<le> mant x \<longleftrightarrow> 0 \<le> valof x" "mant x < 0 \<longleftrightarrow> valof x < 0" "0 < mant x \<longleftrightarrow> 0 < valof x"
  by (simp_all add: valof_def zero_le_mult_iff mult_less_0_iff zero_less_mult_iff)

lemma quoRem_nonneg:
  assumes "0 \<le> d"
  shows "quoInt d 60000000000 = d div 60000000000" "remInt d 60000000000 = d mod 60000000000"
  using assms by (cases "d = 0"; simp add: quoInt_def remInt_def)+

lemma quoRem_neg:
  assumes "d < 0"
  shows "quoInt d 60000000000 = - ((- d) div 60000000000)"
    "remInt d 60000000000 = - ((- d) mod 60000000000)"
  using assms by (simp_all add: quoInt_def remInt_def)

lemma Minutes_parts:
  assumes "- 9223372036854775808 \<le> d" "d \<le> 9223372036854775807"
  defines "a \<equiv> quoInt d 60000000000" and "b \<equiv> remInt d 60000000000"
  shows "valof (fromInt a) = real_of_int a"
    and "\<bar>valof (fdiv (fromInt b) (fromInt 60000000000)) - real_of_int b / 60000000000\<bar> \<le> 2 powi (- 54)"
    and "0 \<le> b \<Longrightarrow> 0 \<le> valof (fdiv (fromInt b) (fromInt 60000000000))"
    and "b \<le> 0 \<Longrightarrow> valof (fdiv (fromInt b) (fromInt 60000000000)) \<le> 0"
    and "b < 0 \<Longrightarrow> valof (fdiv (fromInt b) (fromInt 60000000000)) < 0"
proof -
  have ab: "\<bar>a\<bar> \<le> 153722868 \<and> \<bar>b\<bar> < 60000000000"
  proof (cases "0 \<le> d")
    case True
    with assms(2) show ?thesis unfolding a_def b_def quoRem_nonneg[OF True] by simp
  next
    case False
    then have n: "d < 0" by simp
    have "0 \<le> (- d) div 60000000000" using n by simp
    moreover have "(- d) div 60000000000 \<le> 153722868" using assms(1) by simp
    moreover have "0 \<le> (- d) mod 60000000000" "(- d) mod 60000000000 < 60000000000" by simp_all
    ultimately show ?thesis unfolding a_def b_def quoRem_neg[OF n] by simp
  qed
  then have "\<bar>a\<bar> < 2 ^ 53" by simp
  then show va: "valof (fromInt a) = real_of_int a" by (rule fromInt_exact)
  from ab have "\<bar>b\<bar> < 2 ^ 53" by simp
  then have vb: "valof (fromInt b) = real_of_int b" by (rule fromInt_exact)
  have vc: "valof (fromInt 60000000000) = 60000000000"
    using fromInt_exact[of 60000000000] by simp
  then have mc: "0 < mant (fromInt 60000000000)" by (simp add: valof_sign(3))
  from ab have "- 60000000000 < b" "b < 60000000000" by linarith+
  then have "- 60000000000 < real_of_int b" "real_of_int b < 60000000000" by simp_all
  then have "\<bar>real_of_int b\<bar> < 60000000000" by linarith
  then have "\<bar>real_of_int b / 60000000000\<bar> < 1" by simp
  then have "\<bar>valof (fromInt b) / valof (fromInt 60000000000)\<bar> < 2 powi 0" by (simp add: vb vc)
  from fdiv_err[OF mc this]
  show "\<bar>valof (fdiv (fromInt b) (fromInt 60000000000)) - real_of_int b / 60000000000\<bar> \<le> 2 powi (- 54)"
    by (simp add: vb vc)
  show "0 \<le> valof (fdiv (fromInt b) (fromInt 60000000000))" if "0 \<le> b"
  proof -
    from that have "0 \<le> valof (fromInt b)" by (simp add: vb)
    then have "0 \<le> mant (fromInt b)" by (simp add: valof_sign(1))
    with mc show ?thesis by (rule fdiv_nonneg)
  qed
  show "valof (fdiv (fromInt b) (fromInt 60000000000)) \<le> 0" if "b \<le> 0"
  proof -
    from that have "\<not> 0 < valof (fromInt b)" by (simp add: vb)
    then have "\<not> 0 < mant (fromInt b)" unfolding valof_sign(3) .
    then have "mant (fromInt b) \<le> 0" by simp
    with mc show ?thesis by (rule fdiv_nonpos)
  qed
  show "valof (fdiv (fromInt b) (fromInt 60000000000)) < 0" if "b < 0"
  proof -
    from that have "valof (fromInt b) < 0" by (simp add: vb)
    then have "mant (fromInt b) < 0" by (simp add: valof_sign(2))
    with mc show ?thesis by (rule fdiv_neg)
  qed
qed

lemma Minutes_ge_iff:
  assumes "0 \<le> m" "m \<le> 262144" "- 9223372036854775808 \<le> d" "d \<le> 9223372036854775807"
  shows "fge (Minutes d) (fromInt m) \<longleftrightarrow> m * 60000000000 \<le> d"
proof -
  define a where "a = quoInt d 60000000000"
  define b where "b = remInt d 60000000000"
  define q where "q = valof (fdiv (fromInt b) (fromInt 60000000000))"
  note p = Minutes_parts[OF assms(3,4), folded a_def b_def]
  have M: "Minutes d = fadd (fromInt a) (fdiv (fromInt b) (fromInt 60000000000))"
    by (simp add: Minutes_def a_def b_def)
  have S: "valof (fromInt a) + valof (fdiv (fromInt b) (fromInt 60000000000)) = real_of_int a + q"
    by (simp add: p(1) q_def)
  have vm: "valof (fromInt m) = real_of_int m"
    using assms(1,2) by (intro fromInt_exact) simp
  have e: "2 powi (- 54) = (1::real) / 18014398509481984" by simp
  from p(2) have qb: "q \<le> real_of_int b / 60000000000 + 1 / 18014398509481984"
    unfolding e q_def by linarith
  show ?thesis
  proof (cases "m * 60000000000 \<le> d")
    case True
    with assms(1) have d0: "0 \<le> d" by simp
    have a: "a = d div 60000000000" and b: "b = d mod 60000000000"
      unfolding a_def b_def by (rule quoRem_nonneg[OF d0])+
    from True have ma: "m \<le> a" unfolding a by simp
    have "a \<le> 153722867" unfolding a using assms(4) by simp
    have b0: "0 \<le> b" "b < 60000000000" unfolding b by simp_all
    from p(3)[OF b0(1)] have q0: "0 \<le> q" unfolding q_def .
    from b0(2) have "real_of_int b / 60000000000 < 1" by simp
    with qb have q1: "q < 2" by simp
    have "\<bar>real_of_int a + q\<bar> < 2 powi 53"
      using q0 q1 \<open>a \<le> 153722867\<close> ma assms(1) by simp
    moreover have "real_of_int m \<le> real_of_int a + q" using ma q0 by simp
    ultimately have "real_of_int m \<le> valof (Minutes d)"
      unfolding M S[symmetric] by (rule fadd_ge_int)
    with True show ?thesis by (simp add: fge_iff vm)
  next
    case False
    have "valof (Minutes d) < real_of_int m"
    proof (cases "d < 0")
      case True
      have a: "a = - ((- d) div 60000000000)" and b: "b = - ((- d) mod 60000000000)"
        unfolding a_def b_def by (rule quoRem_neg[OF True])+
      have a0: "a \<le> 0" unfolding a using True by simp
      have b0: "b \<le> 0" unfolding b by simp
      have "a < 0 \<or> b < 0"
      proof (rule ccontr)
        assume "\<not> (a < 0 \<or> b < 0)"
        with a0 b0 have "a = 0" "b = 0" by simp_all
        then have "(- d) div 60000000000 = 0" "(- d) mod 60000000000 = 0"
          unfolding a b by simp_all
        then have "- d = 0" by (metis div_mult_mod_eq mult_zero_left add_0)
        with True show False by simp
      qed
      with p(4)[OF b0] p(5) a0 have "real_of_int a + q < 0" unfolding q_def by auto
      then have "valof (Minutes d) < 0" unfolding M S[symmetric] by (rule fadd_neg)
      with assms(1) show ?thesis by simp
    next
      case nonneg: False
      then have d0: "0 \<le> d" by simp
      have a: "a = d div 60000000000" and b: "b = d mod 60000000000"
        unfolding a_def b_def by (rule quoRem_nonneg[OF d0])+
      from False have "a < m" unfolding a by simp
      then have am: "real_of_int a \<le> real_of_int m - 1" by simp
      have a0: "0 \<le> a" unfolding a using d0 by simp
      have b0: "0 \<le> b" "b \<le> 59999999999" unfolding b by simp_all
      from p(3)[OF b0(1)] have q0: "0 \<le> q" unfolding q_def .
      from b0(2) have "real_of_int b / 60000000000 \<le> 59999999999 / 60000000000" by simp
      with qb have q1: "q \<le> 59999999999 / 60000000000 + 1 / 18014398509481984" by linarith
      have s0: "0 \<le> real_of_int a + q" using a0 q0 by simp
      have s1: "real_of_int a + q \<le> real_of_int m - 1 + 59999999999 / 60000000000 + 1 / 18014398509481984"
        using am q1 by linarith
      have "real_of_int m \<le> 262144" using assms(2) by simp
      with s0 s1 have "\<bar>real_of_int a + q\<bar> < 2 powi 18" by simp
      then have "\<bar>valof (Minutes d) - (real_of_int a + q)\<bar> \<le> 2 powi (18 - 54)"
        unfolding M S[symmetric] by (rule fadd_err)
      moreover have "2 powi (18 - 54) = (1::real) / 68719476736" by simp
      ultimately have "valof (Minutes d) \<le> real_of_int a + q + 1 / 68719476736" by linarith
      with s1 show ?thesis by simp
    qed
    with False show ?thesis by (simp add: fge_iff vm)
  qed
qed


subsection \<open>Visiting every key\<close>

text \<open>
  What a loop over the keys leaves alone, for a step that touches the entry of its own key
  only and the handle of that entry's writer only.
\<close>

lemma fold_keys_other:
  assumes "\<And>k' s. k' \<noteq> k \<Longrightarrow> currentFiles (fst (f k' s)) k = currentFiles (fst s) k"
  shows "k \<notin> set ks \<Longrightarrow> currentFiles (fst (fold f ks s)) k = currentFiles (fst s) k"
  by (induction ks arbitrary: s) (auto simp: assms)

lemma fold_handles_other:
  assumes other: "\<And>k' k s. k' \<noteq> k \<Longrightarrow> currentFiles (fst (f k' s)) k = currentFiles (fst s) k"
    and mono: "\<And>k' s. length (handles (snd s)) \<le> length (handles (snd (f k' s)))"
    and frame: "\<And>k' s. h < length (handles (snd s)) \<Longrightarrow>
        (\<forall>fw'. currentFiles (fst s) k' = Some fw' \<longrightarrow> fileHandle fw' \<noteq> h) \<Longrightarrow>
        handles (snd (f k' s)) ! h = handles (snd s) ! h"
  shows "distinct ks \<Longrightarrow> h < length (handles (snd s)) \<Longrightarrow>
         (\<forall>k'\<in>set ks. \<forall>fw'. currentFiles (fst s) k' = Some fw' \<longrightarrow> fileHandle fw' \<noteq> h) \<Longrightarrow>
         handles (snd (fold f ks s)) ! h = handles (snd s) ! h \<and>
         h < length (handles (snd (fold f ks s)))"
proof (induction ks arbitrary: s)
  case Nil
  then show ?case by simp
next
  case (Cons k ks)
  let ?s = "f k s"
  have h1: "handles (snd ?s) ! h = handles (snd s) ! h"
    using Cons.prems by (intro frame) auto
  have l1: "h < length (handles (snd ?s))"
    using Cons.prems(2) mono[of s k] by simp
  have o1: "\<forall>k'\<in>set ks. \<forall>fw'. currentFiles (fst ?s) k' = Some fw' \<longrightarrow> fileHandle fw' \<noteq> h"
  proof (intro ballI allI impI)
    fix k' fw' assume k': "k' \<in> set ks" and c: "currentFiles (fst ?s) k' = Some fw'"
    from k' Cons.prems(1) have "k \<noteq> k'" by auto
    then have "currentFiles (fst ?s) k' = currentFiles (fst s) k'" by (rule other)
    with c k' Cons.prems(3) show "fileHandle fw' \<noteq> h" by auto
  qed
  from Cons.prems(1) have d: "distinct ks" by simp
  from Cons.IH[OF d l1 o1] h1 show ?case by simp
qed


subsection \<open>The rotation check\<close>

lemma rotateFile_recorder:
  "\<exists>x. fst (rotateFile env key fw (r, w)) = r\<lparr>currentFiles := (currentFiles r)(key := x)\<rparr>"
  by (cases "canCreate env (Join (outputDir r) (segmentName (platform fw) (channel fw) (now env)))")
     (auto simp: rotateFile_created rotateFile_not_created)

lemma rotateFile_handles:
  "\<exists>extra. handles (snd (rotateFile env key fw (r, w))) = handles (rotated env r w fw) @ extra"
  by (cases "canCreate env (Join (outputDir r) (segmentName (platform fw) (channel fw) (now env)))")
     (auto simp: rotateFile_created rotateFile_not_created)

lemma rotateFile_handle_other:
  assumes "h < length (handles w)" "h \<noteq> fileHandle fw"
  shows "handles (snd (rotateFile env key fw (r, w))) ! h = handles w ! h"
proof -
  from rotateFile_handles[of env key fw r w] obtain extra where
    e: "handles (snd (rotateFile env key fw (r, w))) = handles (rotated env r w fw) @ extra"
    by blast
  have "h < length (handles (rotated env r w fw))" using assms(1) by (simp add: rotated_frame)
  then have "handles (snd (rotateFile env key fw (r, w))) ! h = handles (rotated env r w fw) ! h"
    by (simp add: e nth_append)
  then show ?thesis using assms(2) by (simp add: rotated_handle_other)
qed

lemma rotateFile_handles_length:
  "length (handles w) \<le> length (handles (snd (rotateFile env key fw (r, w))))"
proof -
  from rotateFile_handles[of env key fw r w] obtain extra where
    e: "handles (snd (rotateFile env key fw (r, w))) = handles (rotated env r w fw) @ extra"
    by blast
  show ?thesis by (simp add: e rotated_frame)
qed

lemma rotationStep_other:
  "k' \<noteq> k \<Longrightarrow> currentFiles (fst (rotationStep env k' s)) k = currentFiles (fst s) k"
proof -
  assume ne: "k' \<noteq> k"
  obtain r w where s: "s = (r, w)" by (cases s)
  show ?thesis
  proof (cases "currentFiles r k'")
    case None
    then show ?thesis by (simp add: rotationStep_def s)
  next
    case (Some fw)
    from rotateFile_recorder[of env k' fw r w] obtain x where
      "fst (rotateFile env k' fw (r, w)) = r\<lparr>currentFiles := (currentFiles r)(k' := x)\<rparr>"
      by blast
    with Some ne show ?thesis by (simp add: rotationStep_def s)
  qed
qed

lemma rotationStep_config:
  "rotateMinutes (fst (rotationStep env k' s)) = rotateMinutes (fst s) \<and>
   rotateMegabytes (fst (rotationStep env k' s)) = rotateMegabytes (fst s) \<and>
   outputDir (fst (rotationStep env k' s)) = outputDir (fst s) \<and>
   bufferSize (fst (rotationStep env k' s)) = bufferSize (fst s)"
proof -
  obtain r w where s: "s = (r, w)" by (cases s)
  show ?thesis
  proof (cases "currentFiles r k'")
    case None
    then show ?thesis by (simp add: rotationStep_def s)
  next
    case (Some fw)
    from rotateFile_recorder[of env k' fw r w] obtain x where
      "fst (rotateFile env k' fw (r, w)) = r\<lparr>currentFiles := (currentFiles r)(k' := x)\<rparr>"
      by blast
    with Some show ?thesis by (simp add: rotationStep_def s)
  qed
qed

lemma rotationStep_handles_length:
  "length (handles (snd s)) \<le> length (handles (snd (rotationStep env k' s)))"
proof -
  obtain r w where s: "s = (r, w)" by (cases s)
  show ?thesis
    by (cases "currentFiles r k'") (simp_all add: rotationStep_def s rotateFile_handles_length)
qed

lemma rotationStep_handle_other:
  assumes "h < length (handles (snd s))"
    and "\<forall>fw'. currentFiles (fst s) k' = Some fw' \<longrightarrow> fileHandle fw' \<noteq> h"
  shows "handles (snd (rotationStep env k' s)) ! h = handles (snd s) ! h"
proof -
  obtain r w where s: "s = (r, w)" by (cases s)
  show ?thesis
  proof (cases "currentFiles r k'")
    case None
    then show ?thesis by (simp add: rotationStep_def s)
  next
    case (Some fw)
    with assms s have "h < length (handles w)" "h \<noteq> fileHandle fw" by auto
    then have "handles (snd (rotateFile env k' fw (r, w))) ! h = handles w ! h"
      by (rule rotateFile_handle_other)
    with Some show ?thesis by (simp add: rotationStep_def s)
  qed
qed

lemma needsRotation_config:
  "rotateMinutes r' = rotateMinutes r \<Longrightarrow> rotateMegabytes r' = rotateMegabytes r \<Longrightarrow>
     needsRotation env r' fw = needsRotation env r fw"
  by (simp add: needsRotation_def)

lemma fold_rotation_config:
  "rotateMinutes (fst (fold (rotationStep env) ks s)) = rotateMinutes (fst s) \<and>
   rotateMegabytes (fst (fold (rotationStep env) ks s)) = rotateMegabytes (fst s)"
  by (induction ks arbitrary: s) (simp_all add: rotationStep_config)

lemma Since_bounds:
  "- 9223372036854775808 \<le> Since env t" "Since env t \<le> 9223372036854775807"
  by (simp_all add: Since_def subMono_def)

lemma needsRotation_iff:
  assumes "0 \<le> rotateMinutes r" "rotateMinutes r \<le> 262144"
  shows "needsRotation env r fw \<longleftrightarrow>
     rotateMinutes r * 60000000000 \<le> mono (now env) - mono (createdAt fw) \<or>
     rotateMegabytes r \<le> bytesWritten fw"
proof -
  have "fge (Minutes (Since env (createdAt fw))) (fromInt (rotateMinutes r)) \<longleftrightarrow>
      rotateMinutes r * 60000000000 \<le> Since env (createdAt fw)"
    using assms by (intro Minutes_ge_iff Since_bounds)
  also have "\<dots> \<longleftrightarrow> rotateMinutes r * 60000000000 \<le> mono (now env) - mono (createdAt fw)"
    using assms by (simp add: Since_def subMono_def)
  finally show ?thesis by (simp add: needsRotation_def)
qed


lemma fold_rotation_handles_length:
  "length (handles (snd s)) \<le> length (handles (snd (fold (rotationStep env) ks s)))"
proof (induction ks arbitrary: s)
  case Nil
  show ?case by simp
next
  case (Cons k ks)
  have "length (handles (snd s)) \<le> length (handles (snd (rotationStep env k s)))"
    by (rule rotationStep_handles_length)
  also have "\<dots> \<le> length (handles (snd (fold (rotationStep env) ks (rotationStep env k s))))"
    by (rule Cons.IH)
  finally show ?case by simp
qed

lemma rotationStep_not_due:
  assumes "currentFiles r1 key = Some fw" "\<not> needsRotation env r1 fw"
  shows "rotationStep env key (r1, w1) = (r1, w1)"
  using assms by (simp add: rotationStep_def)

lemma rotationStep_due:
  assumes "currentFiles r1 key = Some fw" "needsRotation env r1 fw"
  shows "rotationStep env key (r1, w1) = rotateFile env key fw (r1, w1)"
  using assms by (simp add: rotationStep_def)

lemma rotateFile_new_entry:
  assumes "rotateFile env key fw (r1, w1) = (r2, w2)"
  shows "currentFiles r2 key = None \<or>
          (\<exists>newFw. currentFiles r2 key = Some newFw \<and> createdAt newFw = now env \<and>
             bytesWritten newFw = 0 \<and> messageBuffer newFw = [] \<and>
             platform newFw = platform fw \<and> channel newFw = channel fw \<and>
             fileHandle newFw = length (handles w1))"
proof (cases "canCreate env
    (Join (outputDir r1) (segmentName (platform fw) (channel fw) (now env)))")
  case True
  have "rotateFile env key fw (r1, w1) =
     (r1\<lparr>currentFiles := (currentFiles r1)(key \<mapsto>
          \<lparr>fileHandle = length (handles w1), writerErr = False, createdAt = now env,
           bytesWritten = 0, messageBuffer = [], platform = platform fw, channel = channel fw,
           filename = segmentName (platform fw) (channel fw) (now env)\<rparr>)\<rparr>,
      (rotated env r1 w1 fw)\<lparr>
         disk := (disk (rotated env r1 w1 fw))
           (Join (outputDir r1) (segmentName (platform fw) (channel fw) (now env)) \<mapsto> []),
         handles := handles (rotated env r1 w1 fw) @
           [(Join (outputDir r1) (segmentName (platform fw) (channel fw) (now env)), True)]\<rparr>)"
    using True by (rule rotateFile_created)
  with assms have "r2 = r1\<lparr>currentFiles := (currentFiles r1)(key \<mapsto>
          \<lparr>fileHandle = length (handles w1), writerErr = False, createdAt = now env,
           bytesWritten = 0, messageBuffer = [], platform = platform fw, channel = channel fw,
           filename = segmentName (platform fw) (channel fw) (now env)\<rparr>)\<rparr>"
    by simp
  then show ?thesis by simp
next
  case False
  have "rotateFile env key fw (r1, w1) =
     (r1\<lparr>currentFiles := (currentFiles r1)(key := None)\<rparr>, rotated env r1 w1 fw)"
    using False by (rule rotateFile_not_created)
  with assms have "r2 = r1\<lparr>currentFiles := (currentFiles r1)(key := None)\<rparr>" by simp
  then show ?thesis by simp
qed


subsection \<open>The shutdown flush\<close>

lemma closeFile_pathOf_any: "pathOf (closeFile w h) h' = pathOf w h'"
proof (cases "h < length (handles w)")
  case True
  then show ?thesis by (cases "h' = h") (simp_all add: closeFile_def pathOf_def)
next
  case False
  then show ?thesis by (simp add: closeFile_def)
qed








lemma rotated_pathOf: "pathOf (rotated env r w fw) h = pathOf w h"
proof -
  have "handles (rotated env r w fw) =
      handles (closeFile (snd (snd (flushFileWriter env w fw))) (fileHandle fw))"
    by (simp add: rotated_def trySend_frame)
  then have "pathOf (rotated env r w fw) h =
      pathOf (closeFile (snd (snd (flushFileWriter env w fw))) (fileHandle fw)) h"
    by (rule pathOf_cong)
  also have "\<dots> = pathOf (snd (snd (flushFileWriter env w fw))) h"
    by (rule closeFile_pathOf_any)
  also have "\<dots> = pathOf w h"
    by (rule pathOf_cong) (rule flushFileWriter_frame)
  finally show ?thesis .
qed


lemma rotated_disk_other:
  "p \<noteq> pathOf w (fileHandle fw) \<Longrightarrow> disk (rotated env r w fw) p = disk w p"
  by (simp add: rotated_frame flushFileWriter_disk_other)






subsection \<open>What a rotation of another writer leaves alone\<close>

lemma rotateFile_pathOf:
  assumes "h < length (handles w)"
  shows "pathOf (snd (rotateFile env key fw (r, w))) h = pathOf w h"
proof -
  from rotateFile_handles[of env key fw r w] obtain extra where
    e: "handles (snd (rotateFile env key fw (r, w))) = handles (rotated env r w fw) @ extra"
    by blast
  have l: "h < length (handles (rotated env r w fw))" using assms by (simp add: rotated_frame)
  have "pathOf (snd (rotateFile env key fw (r, w))) h = pathOf (rotated env r w fw) h"
    using l by (simp add: pathOf_def e nth_append)
  then show ?thesis by (simp add: rotated_pathOf)
qed

lemma rotationStep_pathOf:
  assumes "h < length (handles (snd s))"
  shows "pathOf (snd (rotationStep env k s)) h = pathOf (snd s) h"
proof -
  obtain r w where s: "s = (r, w)" by (cases s)
  show ?thesis
  proof (cases "currentFiles r k")
    case None
    then show ?thesis by (simp add: rotationStep_def s)
  next
    case (Some fw)
    from assms s have "h < length (handles w)" by simp
    then have "pathOf (snd (rotateFile env k fw (r, w))) h = pathOf w h"
      by (rule rotateFile_pathOf)
    with Some show ?thesis by (simp add: rotationStep_def s)
  qed
qed

lemma fold_rotation_pathOf:
  "h < length (handles (snd s)) \<Longrightarrow>
     pathOf (snd (fold (rotationStep env) ks s)) h = pathOf (snd s) h"
proof (induction ks arbitrary: s)
  case Nil
  show ?case by simp
next
  case (Cons k ks)
  have l: "h < length (handles (snd (rotationStep env k s)))"
    using Cons.prems rotationStep_handles_length[of s env k] by simp
  have "pathOf (snd (fold (rotationStep env) ks (rotationStep env k s))) h =
      pathOf (snd (rotationStep env k s)) h"
    using l by (rule Cons.IH)
  also have "\<dots> = pathOf (snd s) h" using Cons.prems by (rule rotationStep_pathOf)
  finally show ?case by simp
qed

lemma fold_rotation_outputDir:
  "outputDir (fst (fold (rotationStep env) ks s)) = outputDir (fst s)"
  by (induction ks arbitrary: s) (simp_all add: rotationStep_config)

lemma rotationStep_disk_other:
  assumes "\<forall>fw'. currentFiles (fst s) k' = Some fw' \<longrightarrow>
      pathOf (snd s) (fileHandle fw') \<noteq> p \<and>
      Join (outputDir (fst s)) (segmentName (platform fw') (channel fw') (now env)) \<noteq> p"
  shows "disk (snd (rotationStep env k' s)) p = disk (snd s) p"
proof -
  obtain r w where s: "s = (r, w)" by (cases s)
  show ?thesis
  proof (cases "currentFiles r k'")
    case None
    then show ?thesis by (simp add: rotationStep_def s)
  next
    case (Some fw)
    with assms s have a: "p \<noteq> pathOf w (fileHandle fw)"
      and b: "p \<noteq> Join (outputDir r) (segmentName (platform fw) (channel fw) (now env))"
      by auto
    obtain r2 w2 where rot: "rotateFile env k' fw (r, w) = (r2, w2)"
      by (cases "rotateFile env k' fw (r, w)")
    have "disk w2 p = disk (rotated env r w fw) p" using rot b by (rule rotateFile_disk_other)
    also have "\<dots> = disk w p" using a by (rule rotated_disk_other)
    finally have "disk (snd (rotateFile env k' fw (r, w))) p = disk w p" by (simp add: rot)
    then show ?thesis
      by (cases "needsRotation env r fw") (simp_all add: rotationStep_def s Some)
  qed
qed

lemma fold_rotation_disk_other:
  "distinct ks \<Longrightarrow>
   (\<forall>k'\<in>set ks. \<forall>fw'. currentFiles (fst s) k' = Some fw' \<longrightarrow>
      fileHandle fw' < length (handles (snd s)) \<and>
      pathOf (snd s) (fileHandle fw') \<noteq> p \<and>
      Join (outputDir (fst s)) (segmentName (platform fw') (channel fw') (now env)) \<noteq> p) \<Longrightarrow>
   disk (snd (fold (rotationStep env) ks s)) p = disk (snd s) p"
proof (induction ks arbitrary: s)
  case Nil
  show ?case by simp
next
  case (Cons k ks)
  let ?s = "rotationStep env k s"
  have d1: "disk (snd ?s) p = disk (snd s) p"
    using Cons.prems(2) by (intro rotationStep_disk_other) simp
  have inv: "\<forall>k'\<in>set ks. \<forall>fw'. currentFiles (fst ?s) k' = Some fw' \<longrightarrow>
      fileHandle fw' < length (handles (snd ?s)) \<and>
      pathOf (snd ?s) (fileHandle fw') \<noteq> p \<and>
      Join (outputDir (fst ?s)) (segmentName (platform fw') (channel fw') (now env)) \<noteq> p"
  proof (intro ballI allI impI)
    fix k' fw' assume k': "k' \<in> set ks" and c: "currentFiles (fst ?s) k' = Some fw'"
    from k' Cons.prems(1) have "k \<noteq> k'" by auto
    then have "currentFiles (fst ?s) k' = currentFiles (fst s) k'" by (rule rotationStep_other)
    with c have c0: "currentFiles (fst s) k' = Some fw'" by simp
    from k' have "k' \<in> set (k # ks)" by simp
    with Cons.prems(2) c0 have v: "fileHandle fw' < length (handles (snd s))"
      and pp: "pathOf (snd s) (fileHandle fw') \<noteq> p"
      and np: "Join (outputDir (fst s)) (segmentName (platform fw') (channel fw') (now env)) \<noteq> p"
      by blast+
    have "fileHandle fw' < length (handles (snd ?s))"
      using v rotationStep_handles_length[of s env k] by simp
    moreover have "pathOf (snd ?s) (fileHandle fw') \<noteq> p"
      using pp rotationStep_pathOf[OF v, of env k] by simp
    moreover have "Join (outputDir (fst ?s)) (segmentName (platform fw') (channel fw') (now env)) \<noteq> p"
      using np by (simp add: rotationStep_config)
    ultimately show "fileHandle fw' < length (handles (snd ?s)) \<and>
      pathOf (snd ?s) (fileHandle fw') \<noteq> p \<and>
      Join (outputDir (fst ?s)) (segmentName (platform fw') (channel fw') (now env)) \<noteq> p"
      by (intro conjI)
  qed
  from Cons.prems(1) have d: "distinct ks" by simp
  have "disk (snd (fold (rotationStep env) ks ?s)) p = disk (snd ?s) p"
    using d inv by (rule Cons.IH)
  with d1 show ?case by simp
qed

lemma rotateFile_fileChan:
  "fileChan (snd (rotateFile env key fw (r, w))) = fileChan (rotated env r w fw) \<and>
   chanCap (snd (rotateFile env key fw (r, w))) = chanCap w"
  by (cases "canCreate env (Join (outputDir r) (segmentName (platform fw) (channel fw) (now env)))")
     (simp_all add: rotateFile_created rotateFile_not_created rotated_frame)

lemma rotationStep_fileChan:
  "(\<exists>extra. fileChan (snd (rotationStep env k s)) = fileChan (snd s) @ extra \<and> length extra \<le> 1) \<and>
   chanCap (snd (rotationStep env k s)) = chanCap (snd s)"
proof -
  obtain r w where s: "s = (r, w)" by (cases s)
  show ?thesis
  proof (cases "currentFiles r k")
    case None
    then show ?thesis by (simp add: rotationStep_def s)
  next
    case (Some fw)
    show ?thesis
    proof (cases "needsRotation env r fw")
      case False
      with Some show ?thesis by (simp add: rotationStep_def s)
    next
      case True
      with Some have e: "rotationStep env k s = rotateFile env k fw (r, w)"
        by (simp add: rotationStep_def s)
      show ?thesis unfolding e
        by (simp add: rotateFile_fileChan rotated_fileChan s)
    qed
  qed
qed

lemma fold_rotation_fileChan:
  "(\<exists>extra. fileChan (snd (fold (rotationStep env) ks s)) = fileChan (snd s) @ extra \<and>
      length extra \<le> length ks) \<and>
   chanCap (snd (fold (rotationStep env) ks s)) = chanCap (snd s)"
proof (induction ks arbitrary: s)
  case Nil
  show ?case by simp
next
  case (Cons k ks)
  let ?s = "rotationStep env k s"
  from rotationStep_fileChan[of env k s] obtain x where
    x: "fileChan (snd ?s) = fileChan (snd s) @ x" "length x \<le> 1"
    and c: "chanCap (snd ?s) = chanCap (snd s)" by blast
  from Cons.IH[of ?s] obtain y where
    y: "fileChan (snd (fold (rotationStep env) ks ?s)) = fileChan (snd ?s) @ y" "length y \<le> length ks"
    and c': "chanCap (snd (fold (rotationStep env) ks ?s)) = chanCap (snd ?s)" by blast
  have "fileChan (snd (fold (rotationStep env) (k # ks) s)) = fileChan (snd s) @ (x @ y)"
    by (simp add: y(1) x(1))
  moreover have "length (x @ y) \<le> length (k # ks)" using x(2) y(2) by simp
  moreover have "chanCap (snd (fold (rotationStep env) (k # ks) s)) = chanCap (snd s)"
    by (simp add: c' c)
  ultimately show ?case by blast
qed


text \<open>
  C5, amended. In a call of \<open>checkRotation\<close> that visits every key of the map once,
  whatever the order, a writer whose file is open is rotated exactly when
  \<open>needsRotation\<close> holds of it: when the minutes of its age, computed in \<open>float64\<close>,
  are at least \<open>rotateMinutes\<close>, or its byte count is at least \<open>rotateMegabytes\<close> (the
  limit in bytes). For \<open>rotateMinutes\<close> from 0 to 262144 the first test is the exact one:
  the age in nanoseconds is at least \<open>rotateMinutes\<close> minutes. A writer that is not due
  keeps its entry and its open file, and the file its content when no other writer has
  that path. A writer that is due has its file closed; when the replacement file can be
  created its entry is a fresh writer on a new open handle for the segment named after this
  reading of the clock, otherwise the entry is removed; with room in the channel for every
  key the path of the completed segment is in the channel; and without a write fault the
  pending lines are appended to the file, unless a segment is created under its path.
\<close>

theorem checkRotation_rotates_exactly_when_due:
  assumes "distinct (keyOrder env)"
    and "set (keyOrder env) = dom (currentFiles r)"
    and "\<forall>k' fw'. currentFiles r k' = Some fw' \<longrightarrow> fileHandle fw' < length (handles w)"
    and "currentFiles r key = Some fw"
    and "isOpen w (fileHandle fw)"
    and "\<forall>k' fw'. k' \<noteq> key \<and> currentFiles r k' = Some fw' \<longrightarrow> fileHandle fw' \<noteq> fileHandle fw"
    and "checkRotation env (r, w) = (r', w')"
  shows "(needsRotation env r fw \<longleftrightarrow>
            fge (Minutes (Since env (createdAt fw))) (fromInt (rotateMinutes r)) \<or>
            rotateMegabytes r \<le> bytesWritten fw) \<and>
         (0 \<le> rotateMinutes r \<and> rotateMinutes r \<le> 262144 \<longrightarrow>
            (needsRotation env r fw \<longleftrightarrow>
               rotateMinutes r * 60000000000 \<le> mono (now env) - mono (createdAt fw) \<or>
               rotateMegabytes r \<le> bytesWritten fw)) \<and>
         (currentFiles r' key = Some fw \<longleftrightarrow> \<not> needsRotation env r fw) \<and>
         (isOpen w' (fileHandle fw) \<longleftrightarrow> \<not> needsRotation env r fw) \<and>
         (\<not> needsRotation env r fw \<and>
          (\<forall>k' fw'. k' \<noteq> key \<and> currentFiles r k' = Some fw' \<longrightarrow>
             pathOf w (fileHandle fw') \<noteq> pathOf w (fileHandle fw) \<and>
             Join (outputDir r) (segmentName (platform fw') (channel fw') (now env)) \<noteq>
               pathOf w (fileHandle fw)) \<longrightarrow>
            disk w' (pathOf w (fileHandle fw)) = disk w (pathOf w (fileHandle fw))) \<and>
         (needsRotation env r fw \<longrightarrow>
            (if canCreate env
                  (Join (outputDir r) (segmentName (platform fw) (channel fw) (now env)))
             then \<exists>h'. length (handles w) \<le> h' \<and> isOpen w' h' \<and>
                    pathOf w' h' =
                      Join (outputDir r) (segmentName (platform fw) (channel fw) (now env)) \<and>
                    currentFiles r' key =
                      Some \<lparr>fileHandle = h', writerErr = False, createdAt = now env,
                            bytesWritten = 0, messageBuffer = [], platform = platform fw,
                            channel = channel fw,
                            filename = segmentName (platform fw) (channel fw) (now env)\<rparr>
             else currentFiles r' key = None) \<and>
            (length (fileChan w) + length (keyOrder env) \<le> chanCap w \<longrightarrow>
               Join (outputDir r) (filename fw) \<in> set (fileChan w')) \<and>
            (\<forall>content.
               \<not> writerErr fw \<and> ioFault env (fileHandle fw) = None \<and>
               disk w (pathOf w (fileHandle fw)) = Some content \<and>
               (\<forall>k' fw'. k' \<noteq> key \<and> currentFiles r k' = Some fw' \<longrightarrow>
                  pathOf w (fileHandle fw') \<noteq> pathOf w (fileHandle fw)) \<and>
               (\<forall>k' fw'. currentFiles r k' = Some fw' \<longrightarrow>
                  Join (outputDir r) (segmentName (platform fw') (channel fw') (now env)) \<noteq>
                    pathOf w (fileHandle fw)) \<longrightarrow>
               disk w' (pathOf w (fileHandle fw)) =
                 Some (content @ encodeLines (marshal env) (messageBuffer fw))))"
proof -
  let ?h = "fileHandle fw"
  let ?f = "rotationStep env"
  let ?P = "pathOf w (fileHandle fw)"
  let ?new = "Join (outputDir r) (segmentName (platform fw) (channel fw) (now env))"
  let ?old = "Join (outputDir r) (filename fw)"
  define NEW where "NEW h' =
      \<lparr>fileHandle = h', writerErr = False, createdAt = now env, bytesWritten = 0,
       messageBuffer = [], platform = platform fw, channel = channel fw,
       filename = segmentName (platform fw) (channel fw) (now env)\<rparr>" for h'
  from assms(2,4) have "key \<in> set (keyOrder env)" by auto
  then obtain pre post where order: "keyOrder env = pre @ key # post"
    by (auto simp: in_set_conv_decomp)
  from assms(1) have dpre: "distinct pre" and dpost: "distinct post"
    and npre: "key \<notin> set pre" and npost: "key \<notin> set post"
    and disj: "set pre \<inter> set post = {}"
    unfolding order by auto
  define s1 where "s1 = fold ?f pre (r, w)"
  define s2 where "s2 = ?f key s1"
  define s3 where "s3 = fold ?f post s2"
  have res: "checkRotation env (r, w) = s3"
    by (simp add: checkRotation_def order s1_def s2_def s3_def)
  with assms(7) have r': "r' = fst s3" and w': "w' = snd s3" by simp_all
  have hlen: "?h < length (handles w)" using assms(5) by (simp add: isOpen_def)
  \<comment> \<open>the entries of the keys not yet visited\<close>
  have e_pre: "currentFiles (fst s1) k' = currentFiles r k'" if "k' \<notin> set pre" for k'
    unfolding s1_def
    using fold_keys_other[of k' ?f pre "(r, w)", OF rotationStep_other that] by simp
  have e_post: "currentFiles (fst s2) k' = currentFiles r k'" if "k' \<in> set post" for k'
  proof -
    from that npost have ne: "key \<noteq> k'" by auto
    from that disj have np: "k' \<notin> set pre" by auto
    have "currentFiles (fst s2) k' = currentFiles (fst s1) k'"
      unfolding s2_def using ne by (rule rotationStep_other)
    also have "\<dots> = currentFiles r k'" using np by (rule e_pre)
    finally show ?thesis .
  qed
  \<comment> \<open>before the key is visited\<close>
  have opre: "\<forall>k'\<in>set pre. \<forall>fw'. currentFiles (fst (r, w)) k' = Some fw' \<longrightarrow> fileHandle fw' \<noteq> ?h"
  proof (intro ballI allI impI)
    fix k' fw' assume "k' \<in> set pre" and c: "currentFiles (fst (r, w)) k' = Some fw'"
    with npre have "k' \<noteq> key" by auto
    with c assms(6) show "fileHandle fw' \<noteq> ?h" by simp
  qed
  have c1: "currentFiles (fst s1) key = Some fw"
    using e_pre[OF npre] assms(4) by simp
  have hl0: "?h < length (handles (snd (r, w)))" using hlen by simp
  have h1: "handles (snd s1) ! ?h = handles (snd (r, w)) ! ?h \<and> ?h < length (handles (snd s1))"
    unfolding s1_def
    by (rule fold_handles_other[of ?f ?h pre "(r, w)", OF rotationStep_other
        rotationStep_handles_length rotationStep_handle_other dpre hl0 opre])
  have open1: "isOpen (snd s1) ?h" using h1 assms(5) by (simp add: isOpen_def)
  have path1: "pathOf (snd s1) h0 = pathOf w h0" if "h0 < length (handles w)" for h0
    unfolding s1_def using fold_rotation_pathOf[of h0 "(r, w)" env pre] that by simp
  have cfg1: "rotateMinutes (fst s1) = rotateMinutes r" "rotateMegabytes (fst s1) = rotateMegabytes r"
    unfolding s1_def using fold_rotation_config[of env pre "(r, w)"] by simp_all
  have od1: "outputDir (fst s1) = outputDir r"
    unfolding s1_def by (simp add: fold_rotation_outputDir)
  have n1: "needsRotation env (fst s1) fw = needsRotation env r fw"
    using cfg1 by (rule needsRotation_config)
  have len1: "length (handles w) \<le> length (handles (snd s1))"
    unfolding s1_def using fold_rotation_handles_length[of "(r, w)" env pre] by simp
  obtain x1 where q1: "fileChan (snd s1) = fileChan w @ x1" "length x1 \<le> length pre"
    and cap1: "chanCap (snd s1) = chanCap w"
    using fold_rotation_fileChan[of env pre "(r, w)"] unfolding s1_def by auto
  \<comment> \<open>the visit of the key\<close>
  obtain r1 w1 where s1: "s1 = (r1, w1)" by (cases s1)
  from c1 s1 have c1': "currentFiles r1 key = Some fw" by simp
  from n1 s1 have n1': "needsRotation env r1 fw = needsRotation env r fw" by simp
  from h1 s1 have hl1: "?h < length (handles w1)" by simp
  from len1 s1 have len1': "length (handles w) \<le> length (handles w1)" by simp
  from od1 s1 have od1': "outputDir r1 = outputDir r" by simp
  from open1 s1 have open1': "isOpen w1 ?h" by simp
  from path1[OF hlen] s1 have p1': "pathOf w1 ?h = ?P" by simp
  have len2: "length (handles w) \<le> length (handles (snd s2))"
    using len1 rotationStep_handles_length[of s1 env key] by (simp add: s2_def)
  have od2: "outputDir (fst s2) = outputDir r"
    unfolding s2_def using od1 by (simp add: rotationStep_config)
  have path2: "pathOf (snd s2) h0 = pathOf w h0" if "h0 < length (handles w)" for h0
  proof -
    from that len1 have "h0 < length (handles (snd s1))" by simp
    then have "pathOf (snd s2) h0 = pathOf (snd s1) h0"
      unfolding s2_def by (rule rotationStep_pathOf)
    also have "\<dots> = pathOf w h0" using that by (rule path1)
    finally show ?thesis .
  qed
  have keep: "s2 = s1" if "\<not> needsRotation env r fw"
  proof -
    from that n1' have "\<not> needsRotation env r1 fw" by simp
    with c1' have "rotationStep env key (r1, w1) = (r1, w1)" by (rule rotationStep_not_due)
    then show "s2 = s1" by (simp add: s2_def s1)
  qed
  have rot: "s2 = rotateFile env key fw (r1, w1)" if "needsRotation env r fw"
  proof -
    from that n1' have "needsRotation env r1 fw" by simp
    with c1' have "rotationStep env key (r1, w1) = rotateFile env key fw (r1, w1)"
      by (rule rotationStep_due)
    then show ?thesis by (simp add: s2_def s1)
  qed
  have closed2: "\<not> isOpen (snd s2) ?h" if "needsRotation env r fw"
  proof -
    obtain r2 w2 where e: "rotateFile env key fw (r1, w1) = (r2, w2)"
      by (cases "rotateFile env key fw (r1, w1)")
    have "\<not> isOpen w2 ?h" using e hl1 by (rule rotateFile_old_handle_closed)
    then show ?thesis by (simp add: rot[OF that] e)
  qed
  have created2: "currentFiles (fst s2) key = Some (NEW (length (handles w1))) \<and>
      length (handles w1) < length (handles (snd s2)) \<and>
      handles (snd s2) ! length (handles w1) = (?new, True)"
    if "needsRotation env r fw" "canCreate env ?new"
  proof -
    have cc: "canCreate env
        (Join (outputDir r1) (segmentName (platform fw) (channel fw) (now env)))"
      using that(2) unfolding od1' .
    have l: "length (handles (rotated env r1 w1 fw)) = length (handles w1)"
      by (rule rotated_frame)
    show ?thesis
      unfolding rot[OF that(1)] rotateFile_created[OF cc] NEW_def
      by (simp add: l od1' nth_append)
  qed
  have failed2: "currentFiles (fst s2) key = None"
    if "needsRotation env r fw" "\<not> canCreate env ?new"
  proof -
    have cc: "\<not> canCreate env
        (Join (outputDir r1) (segmentName (platform fw) (channel fw) (now env)))"
      using that(2) unfolding od1' .
    show ?thesis unfolding rot[OF that(1)] rotateFile_not_created[OF cc] by simp
  qed
  have queue2: "fileChan (snd s2) =
      (if length (fileChan w1) < chanCap w1 then fileChan w1 @ [?old] else fileChan w1)"
    if "needsRotation env r fw"
    unfolding rot[OF that] by (simp add: rotateFile_fileChan rotated_fileChan od1')
  have disk2: "disk (snd s2) p = disk (rotated env r1 w1 fw) p"
    if "needsRotation env r fw" "p \<noteq> ?new" for p
  proof -
    obtain r2 w2 where e: "rotateFile env key fw (r1, w1) = (r2, w2)"
      by (cases "rotateFile env key fw (r1, w1)")
    have "p \<noteq> Join (outputDir r1) (segmentName (platform fw) (channel fw) (now env))"
      using that(2) unfolding od1' .
    with e have "disk w2 p = disk (rotated env r1 w1 fw) p" by (rule rotateFile_disk_other)
    then show ?thesis by (simp add: rot[OF that(1)] e)
  qed
  \<comment> \<open>after the key was visited\<close>
  have c3: "currentFiles (fst s3) key = currentFiles (fst s2) key"
    unfolding s3_def
    by (rule fold_keys_other[of key ?f post s2, OF rotationStep_other npost])
  have l2: "?h < length (handles (snd s2))"
    using hlen len2 by simp
  have post_handles: "handles (snd s3) ! h0 = handles (snd s2) ! h0 \<and> h0 < length (handles (snd s3))"
    if "h0 < length (handles (snd s2))"
      and "\<forall>k' fw'. k' \<noteq> key \<and> currentFiles r k' = Some fw' \<longrightarrow> fileHandle fw' \<noteq> h0" for h0
  proof -
    have o: "\<forall>k'\<in>set post. \<forall>fw'. currentFiles (fst s2) k' = Some fw' \<longrightarrow> fileHandle fw' \<noteq> h0"
    proof (intro ballI allI impI)
      fix k' fw' assume k': "k' \<in> set post" and c: "currentFiles (fst s2) k' = Some fw'"
      from k' npost have "k' \<noteq> key" by auto
      moreover from c e_post[OF k'] have "currentFiles r k' = Some fw'" by simp
      ultimately have "k' \<noteq> key \<and> currentFiles r k' = Some fw'" by (intro conjI)
      with that(2) show "fileHandle fw' \<noteq> h0" by blast
    qed
    show ?thesis
      unfolding s3_def
      by (rule fold_handles_other[of ?f h0 post s2, OF rotationStep_other
          rotationStep_handles_length rotationStep_handle_other dpost that(1) o])
  qed
  have h3: "handles (snd s3) ! ?h = handles (snd s2) ! ?h \<and> ?h < length (handles (snd s3))"
    using l2 assms(6) by (rule post_handles)
  have open3: "isOpen (snd s3) ?h = isOpen (snd s2) ?h"
    using h3 l2 by (simp add: isOpen_def)
  obtain x3 where q3: "fileChan (snd s3) = fileChan (snd s2) @ x3"
    using fold_rotation_fileChan[of env post s2] unfolding s3_def by auto
  \<comment> \<open>the file of the writer, when no other writer has its path\<close>
  have frame: "disk (snd s1) ?P = disk w ?P \<and> disk (snd s3) ?P = disk (snd s2) ?P"
    if others: "\<forall>k' fw'. k' \<noteq> key \<and> currentFiles r k' = Some fw' \<longrightarrow>
             pathOf w (fileHandle fw') \<noteq> ?P \<and>
             Join (outputDir r) (segmentName (platform fw') (channel fw') (now env)) \<noteq> ?P"
  proof
    have "\<forall>k'\<in>set pre. \<forall>fw'. currentFiles (fst (r, w)) k' = Some fw' \<longrightarrow>
        fileHandle fw' < length (handles (snd (r, w))) \<and>
        pathOf (snd (r, w)) (fileHandle fw') \<noteq> ?P \<and>
        Join (outputDir (fst (r, w))) (segmentName (platform fw') (channel fw') (now env)) \<noteq> ?P"
    proof (intro ballI allI impI)
      fix k' fw' assume k': "k' \<in> set pre" and c: "currentFiles (fst (r, w)) k' = Some fw'"
      from k' npre have ne: "k' \<noteq> key" by auto
      from c have c0: "currentFiles r k' = Some fw'" by simp
      from assms(3) c0 have "fileHandle fw' < length (handles w)" by blast
      moreover from others ne c0 have "pathOf w (fileHandle fw') \<noteq> ?P \<and>
          Join (outputDir r) (segmentName (platform fw') (channel fw') (now env)) \<noteq> ?P"
        by blast
      ultimately show "fileHandle fw' < length (handles (snd (r, w))) \<and>
        pathOf (snd (r, w)) (fileHandle fw') \<noteq> ?P \<and>
        Join (outputDir (fst (r, w))) (segmentName (platform fw') (channel fw') (now env)) \<noteq> ?P"
        by simp
    qed
    with dpre have "disk (snd (fold ?f pre (r, w))) ?P = disk (snd (r, w)) ?P"
      by (rule fold_rotation_disk_other)
    then show "disk (snd s1) ?P = disk w ?P" by (simp add: s1_def)
  next
    have "\<forall>k'\<in>set post. \<forall>fw'. currentFiles (fst s2) k' = Some fw' \<longrightarrow>
        fileHandle fw' < length (handles (snd s2)) \<and>
        pathOf (snd s2) (fileHandle fw') \<noteq> ?P \<and>
        Join (outputDir (fst s2)) (segmentName (platform fw') (channel fw') (now env)) \<noteq> ?P"
    proof (intro ballI allI impI)
      fix k' fw' assume k': "k' \<in> set post" and c: "currentFiles (fst s2) k' = Some fw'"
      from k' npost have ne: "k' \<noteq> key" by auto
      from c e_post[OF k'] have c0: "currentFiles r k' = Some fw'" by simp
      from assms(3) c0 have v: "fileHandle fw' < length (handles w)" by blast
      from others ne c0 have o: "pathOf w (fileHandle fw') \<noteq> ?P"
        "Join (outputDir r) (segmentName (platform fw') (channel fw') (now env)) \<noteq> ?P"
        by blast+
      have "fileHandle fw' < length (handles (snd s2))" using v len2 by simp
      moreover have "pathOf (snd s2) (fileHandle fw') \<noteq> ?P" using o(1) path2[OF v] by simp
      moreover have "Join (outputDir (fst s2)) (segmentName (platform fw') (channel fw') (now env)) \<noteq> ?P"
        using o(2) unfolding od2 .
      ultimately show "fileHandle fw' < length (handles (snd s2)) \<and>
        pathOf (snd s2) (fileHandle fw') \<noteq> ?P \<and>
        Join (outputDir (fst s2)) (segmentName (platform fw') (channel fw') (now env)) \<noteq> ?P"
        by (intro conjI)
    qed
    with dpost have "disk (snd (fold ?f post s2)) ?P = disk (snd s2) ?P"
      by (rule fold_rotation_disk_other)
    then show "disk (snd s3) ?P = disk (snd s2) ?P" by (simp add: s3_def)
  qed
  \<comment> \<open>the parts of the statement\<close>
  have a0: "needsRotation env r fw \<longleftrightarrow>
            fge (Minutes (Since env (createdAt fw))) (fromInt (rotateMinutes r)) \<or>
            rotateMegabytes r \<le> bytesWritten fw"
    by (simp add: needsRotation_def)
  have a: "0 \<le> rotateMinutes r \<and> rotateMinutes r \<le> 262144 \<longrightarrow>
            (needsRotation env r fw \<longleftrightarrow>
               rotateMinutes r * 60000000000 \<le> mono (now env) - mono (createdAt fw) \<or>
               rotateMegabytes r \<le> bytesWritten fw)"
    using needsRotation_iff[of r env fw] by blast
  have b: "currentFiles r' key = Some fw \<longleftrightarrow> \<not> needsRotation env r fw"
  proof (cases "needsRotation env r fw")
    case False
    from keep[OF False] c1 c3 False show ?thesis by (simp add: r')
  next
    case True
    have "currentFiles (fst s2) key \<noteq> Some fw"
    proof (cases "canCreate env ?new")
      case c: True
      from created2[OF True c] have "currentFiles (fst s2) key = Some (NEW (length (handles w1)))"
        by blast
      moreover have "fileHandle (NEW (length (handles w1))) \<noteq> ?h"
        using hl1 by (simp add: NEW_def)
      ultimately show ?thesis by auto
    next
      case c: False
      from failed2[OF True c] show ?thesis by simp
    qed
    with True c3 show ?thesis by (simp add: r')
  qed
  have c: "isOpen w' (fileHandle fw) \<longleftrightarrow> \<not> needsRotation env r fw"
  proof (cases "needsRotation env r fw")
    case False
    from keep[OF False] open1 open3 False show ?thesis by (simp add: w')
  next
    case True
    from closed2[OF True] open3 True show ?thesis by (simp add: w')
  qed
  have d: "\<not> needsRotation env r fw \<and>
          (\<forall>k' fw'. k' \<noteq> key \<and> currentFiles r k' = Some fw' \<longrightarrow>
             pathOf w (fileHandle fw') \<noteq> ?P \<and>
             Join (outputDir r) (segmentName (platform fw') (channel fw') (now env)) \<noteq> ?P) \<longrightarrow>
            disk w' ?P = disk w ?P"
  proof
    assume h: "\<not> needsRotation env r fw \<and>
          (\<forall>k' fw'. k' \<noteq> key \<and> currentFiles r k' = Some fw' \<longrightarrow>
             pathOf w (fileHandle fw') \<noteq> ?P \<and>
             Join (outputDir r) (segmentName (platform fw') (channel fw') (now env)) \<noteq> ?P)"
    then have nd: "\<not> needsRotation env r fw" by blast
    from h frame have f: "disk (snd s1) ?P = disk w ?P" "disk (snd s3) ?P = disk (snd s2) ?P"
      by blast+
    have "disk w' ?P = disk (snd s3) ?P" by (simp only: w')
    also have "\<dots> = disk (snd s2) ?P" by (rule f(2))
    also have "\<dots> = disk (snd s1) ?P" by (simp only: keep[OF nd])
    also have "\<dots> = disk w ?P" by (rule f(1))
    finally show "disk w' ?P = disk w ?P" .
  qed
  have e1: "if canCreate env ?new
             then \<exists>h'. length (handles w) \<le> h' \<and> isOpen w' h' \<and> pathOf w' h' = ?new \<and>
                    currentFiles r' key = Some (NEW h')
             else currentFiles r' key = None"
    if t: "needsRotation env r fw"
  proof (cases "canCreate env ?new")
    case cc: True
    let ?h' = "length (handles w1)"
    from created2[OF t cc] have n: "currentFiles (fst s2) key = Some (NEW ?h')"
      and l: "?h' < length (handles (snd s2))"
      and hv: "handles (snd s2) ! ?h' = (?new, True)" by blast+
    have "\<forall>k' fw'. k' \<noteq> key \<and> currentFiles r k' = Some fw' \<longrightarrow> fileHandle fw' \<noteq> ?h'"
    proof (intro allI impI)
      fix k' fw' assume "k' \<noteq> key \<and> currentFiles r k' = Some fw'"
      with assms(3) have "fileHandle fw' < length (handles w)" by blast
      with len1' show "fileHandle fw' \<noteq> ?h'" by simp
    qed
    with l have p: "handles (snd s3) ! ?h' = handles (snd s2) ! ?h' \<and> ?h' < length (handles (snd s3))"
      by (rule post_handles)
    have "isOpen w' ?h'" using p hv by (simp add: isOpen_def w')
    moreover have "pathOf w' ?h' = ?new" using p hv by (simp add: pathOf_def w')
    moreover have "currentFiles r' key = Some (NEW ?h')" using n c3 by (simp add: r')
    ultimately have "length (handles w) \<le> ?h' \<and> isOpen w' ?h' \<and> pathOf w' ?h' = ?new \<and>
        currentFiles r' key = Some (NEW ?h')"
      using len1' by (intro conjI)
    then have "\<exists>h'. length (handles w) \<le> h' \<and> isOpen w' h' \<and> pathOf w' h' = ?new \<and>
        currentFiles r' key = Some (NEW h')" ..
    with cc show ?thesis by simp
  next
    case cc: False
    from failed2[OF t cc] c3 have "currentFiles r' key = None" by (simp add: r')
    with cc show ?thesis by simp
  qed
  have e2: "?old \<in> set (fileChan w')"
    if t: "needsRotation env r fw" and room: "length (fileChan w) + length (keyOrder env) \<le> chanCap w"
  proof -
    have "length (fileChan (snd s1)) < chanCap (snd s1)"
      using q1 cap1 room by (simp add: order)
    then have "length (fileChan w1) < chanCap w1" by (simp add: s1)
    with queue2[OF t] have "fileChan (snd s2) = fileChan w1 @ [?old]" by simp
    then have "fileChan (snd s3) = (fileChan w1 @ [?old]) @ x3" by (simp only: q3)
    then show ?thesis by (simp add: w')
  qed
  have e3: "disk w' ?P = Some (content @ encodeLines (marshal env) (messageBuffer fw))"
    if t: "needsRotation env r fw"
      and healthy: "\<not> writerErr fw" "ioFault env ?h = None" "disk w ?P = Some content"
      and paths: "\<forall>k' fw'. k' \<noteq> key \<and> currentFiles r k' = Some fw' \<longrightarrow>
                  pathOf w (fileHandle fw') \<noteq> ?P"
      and fresh: "\<forall>k' fw'. currentFiles r k' = Some fw' \<longrightarrow>
                  Join (outputDir r) (segmentName (platform fw') (channel fw') (now env)) \<noteq> ?P"
    for content
  proof -
    from paths fresh have "\<forall>k' fw'. k' \<noteq> key \<and> currentFiles r k' = Some fw' \<longrightarrow>
             pathOf w (fileHandle fw') \<noteq> ?P \<and>
             Join (outputDir r) (segmentName (platform fw') (channel fw') (now env)) \<noteq> ?P"
      by blast
    with frame have f: "disk (snd s1) ?P = disk w ?P" "disk (snd s3) ?P = disk (snd s2) ?P"
      by blast+
    from f(1) healthy(3) have "disk w1 ?P = Some content" by (simp add: s1)
    then have dc: "disk w1 (pathOf w1 ?h) = Some content" by (simp only: p1')
    have "disk (rotated env r1 w1 fw) (pathOf w1 ?h) =
        Some (content @ encodeLines (marshal env) (messageBuffer fw))"
      using open1' healthy(1,2) dc by (rule rotated_content)
    then have rc: "disk (rotated env r1 w1 fw) ?P =
        Some (content @ encodeLines (marshal env) (messageBuffer fw))"
      by (simp only: p1')
    from fresh assms(4) have "?new \<noteq> ?P" by blast
    then have ne: "?P \<noteq> ?new" by (rule not_sym)
    have "disk w' ?P = disk (snd s3) ?P" by (simp only: w')
    also have "\<dots> = disk (snd s2) ?P" by (rule f(2))
    also have "\<dots> = disk (rotated env r1 w1 fw) ?P" using t ne by (rule disk2)
    also have "\<dots> = Some (content @ encodeLines (marshal env) (messageBuffer fw))" by (rule rc)
    finally show ?thesis .
  qed
  have e: "needsRotation env r fw \<longrightarrow>
            (if canCreate env ?new
             then \<exists>h'. length (handles w) \<le> h' \<and> isOpen w' h' \<and> pathOf w' h' = ?new \<and>
                    currentFiles r' key = Some (NEW h')
             else currentFiles r' key = None) \<and>
            (length (fileChan w) + length (keyOrder env) \<le> chanCap w \<longrightarrow>
               ?old \<in> set (fileChan w')) \<and>
            (\<forall>content.
               \<not> writerErr fw \<and> ioFault env ?h = None \<and> disk w ?P = Some content \<and>
               (\<forall>k' fw'. k' \<noteq> key \<and> currentFiles r k' = Some fw' \<longrightarrow>
                  pathOf w (fileHandle fw') \<noteq> ?P) \<and>
               (\<forall>k' fw'. currentFiles r k' = Some fw' \<longrightarrow>
                  Join (outputDir r) (segmentName (platform fw') (channel fw') (now env)) \<noteq> ?P) \<longrightarrow>
               disk w' ?P = Some (content @ encodeLines (marshal env) (messageBuffer fw)))"
    using e1 e2 e3 by blast
  from a0 a b c d e show ?thesis unfolding NEW_def by (intro conjI)
qed





subsection \<open>Concrete runs of the rotation check and of the shutdown flush\<close>








subsection \<open>Concrete runs of the rotation check\<close>

lemma segmentName_clockAt:
  "segmentName plat chan (clockAt 0 ss m) = plat @ ''_'' @ chan @ ''_20251230_1000.jsonl''"
  "segmentName plat chan (clockAt 30 ss m) = plat @ ''_'' @ chan @ ''_20251230_1030.jsonl''"
  "segmentName plat chan (clockAt 31 ss m) = plat @ ''_'' @ chan @ ''_20251230_1031.jsonl''"
  by (simp_all add: segmentName_def Format_def clockAt_def padInt_def digitChar_def)

lemma aged_entries:
  "currentFiles agedRecorder ''twitch_ludwig'' =
     Some (writerOf ''twitch'' ''ludwig'' 0 (clockAt 0 0 0) 2048 [chatMessage ''ludwig'' ''gg''])"
  "currentFiles agedRecorder ''twitch_xqc'' =
     Some (writerOf ''twitch'' ''xqc'' 1 (clockAt 30 6 1806) 104857600 [])"
  "currentFiles agedRecorder ''twitch_moonmoon'' =
     Some (writerOf ''twitch'' ''moonmoon'' 2 (clockAt 30 7 1807) 10
             [chatMessage ''moonmoon'' ''hi''])"
  by (simp_all add: agedRecorder_def)

lemma aged_dom:
  "set [''twitch_moonmoon'', ''twitch_xqc'', ''twitch_ludwig''] = dom (currentFiles agedRecorder)"
  by (auto simp: agedRecorder_def)

lemma aged_others:
  "currentFiles agedRecorder k' = Some fw' \<Longrightarrow>
     (k' = ''twitch_ludwig'' \<and>
      fw' = writerOf ''twitch'' ''ludwig'' 0 (clockAt 0 0 0) 2048 [chatMessage ''ludwig'' ''gg'']) \<or>
     (k' = ''twitch_xqc'' \<and> fw' = writerOf ''twitch'' ''xqc'' 1 (clockAt 30 6 1806) 104857600 []) \<or>
     (k' = ''twitch_moonmoon'' \<and>
      fw' = writerOf ''twitch'' ''moonmoon'' 2 (clockAt 30 7 1807) 10
              [chatMessage ''moonmoon'' ''hi''])"
  by (auto simp: agedRecorder_def split: if_splits)

lemma aged_facts:
  assumes "currentFiles agedRecorder k' = Some fw'"
  shows "fileHandle fw' < length (handles agedWorld)"
    and "Join (outputDir agedRecorder)
           (segmentName (platform fw') (channel fw') (clockAt 31 0 1860)) \<notin>
         {''data/twitch_ludwig_20251230_1000.jsonl'', ''data/twitch_xqc_20251230_1030.jsonl'',
          ''data/twitch_moonmoon_20251230_1030.jsonl''}"
    and "k' \<noteq> ''twitch_ludwig'' \<Longrightarrow> fileHandle fw' \<noteq> 0 \<and>
           pathOf agedWorld (fileHandle fw') \<noteq> ''data/twitch_ludwig_20251230_1000.jsonl''"
    and "k' \<noteq> ''twitch_xqc'' \<Longrightarrow> fileHandle fw' \<noteq> 1 \<and>
           pathOf agedWorld (fileHandle fw') \<noteq> ''data/twitch_xqc_20251230_1030.jsonl''"
    and "k' \<noteq> ''twitch_moonmoon'' \<Longrightarrow> fileHandle fw' \<noteq> 2 \<and>
           pathOf agedWorld (fileHandle fw') \<noteq> ''data/twitch_moonmoon_20251230_1030.jsonl''"
  using aged_others[OF assms]
  by (auto simp: writerOf_def agedWorld_def pathOf_def segmentName_clockAt Join_data
        agedRecorder_def)


theorem checkRotation_rotates_exactly_when_due_witness:
  "fge (Minutes (Since (quietEnv (clockAt 31 0 1860)
          [''twitch_moonmoon'', ''twitch_xqc'', ''twitch_ludwig''])
        (clockAt 0 0 0))) (fromInt (rotateMinutes agedRecorder)) \<and>
   \<not> rotateMegabytes agedRecorder \<le> 2048 \<and>
   \<not> fge (Minutes (Since (quietEnv (clockAt 31 0 1860)
          [''twitch_moonmoon'', ''twitch_xqc'', ''twitch_ludwig''])
        (clockAt 30 6 1806))) (fromInt (rotateMinutes agedRecorder)) \<and>
   rotateMegabytes agedRecorder \<le> 104857600 \<and>
   \<not> needsRotation (quietEnv (clockAt 31 0 1860)
        [''twitch_moonmoon'', ''twitch_xqc'', ''twitch_ludwig'']) agedRecorder
      (writerOf ''twitch'' ''moonmoon'' 2 (clockAt 30 7 1807) 10
         [chatMessage ''moonmoon'' ''hi'']) \<and>
   \<not> isOpen (snd (checkRotation (quietEnv (clockAt 31 0 1860)
        [''twitch_moonmoon'', ''twitch_xqc'', ''twitch_ludwig'']) (agedRecorder, agedWorld))) 0 \<and>
   \<not> isOpen (snd (checkRotation (quietEnv (clockAt 31 0 1860)
        [''twitch_moonmoon'', ''twitch_xqc'', ''twitch_ludwig'']) (agedRecorder, agedWorld))) 1 \<and>
   isOpen (snd (checkRotation (quietEnv (clockAt 31 0 1860)
        [''twitch_moonmoon'', ''twitch_xqc'', ''twitch_ludwig'']) (agedRecorder, agedWorld))) 2 \<and>
   currentFiles (fst (checkRotation (quietEnv (clockAt 31 0 1860)
        [''twitch_moonmoon'', ''twitch_xqc'', ''twitch_ludwig'']) (agedRecorder, agedWorld)))
      ''twitch_moonmoon'' =
     Some (writerOf ''twitch'' ''moonmoon'' 2 (clockAt 30 7 1807) 10
             [chatMessage ''moonmoon'' ''hi'']) \<and>
   disk (snd (checkRotation (quietEnv (clockAt 31 0 1860)
        [''twitch_moonmoon'', ''twitch_xqc'', ''twitch_ludwig'']) (agedRecorder, agedWorld)))
      ''data/twitch_moonmoon_20251230_1030.jsonl'' = Some ''{line 3}'' \<and>
   (\<exists>h'. 3 \<le> h' \<and>
      isOpen (snd (checkRotation (quietEnv (clockAt 31 0 1860)
        [''twitch_moonmoon'', ''twitch_xqc'', ''twitch_ludwig'']) (agedRecorder, agedWorld))) h' \<and>
      pathOf (snd (checkRotation (quietEnv (clockAt 31 0 1860)
        [''twitch_moonmoon'', ''twitch_xqc'', ''twitch_ludwig'']) (agedRecorder, agedWorld))) h' =
        ''data/twitch_ludwig_20251230_1031.jsonl'' \<and>
      currentFiles (fst (checkRotation (quietEnv (clockAt 31 0 1860)
        [''twitch_moonmoon'', ''twitch_xqc'', ''twitch_ludwig'']) (agedRecorder, agedWorld)))
        ''twitch_ludwig'' =
        Some (writerOf ''twitch'' ''ludwig'' h' (clockAt 31 0 1860) 0 [])) \<and>
   ''data/twitch_ludwig_20251230_1000.jsonl'' \<in>
     set (fileChan (snd (checkRotation (quietEnv (clockAt 31 0 1860)
        [''twitch_moonmoon'', ''twitch_xqc'', ''twitch_ludwig'']) (agedRecorder, agedWorld)))) \<and>
   ''data/twitch_xqc_20251230_1030.jsonl'' \<in>
     set (fileChan (snd (checkRotation (quietEnv (clockAt 31 0 1860)
        [''twitch_moonmoon'', ''twitch_xqc'', ''twitch_ludwig'']) (agedRecorder, agedWorld)))) \<and>
   disk (snd (checkRotation (quietEnv (clockAt 31 0 1860)
        [''twitch_moonmoon'', ''twitch_xqc'', ''twitch_ludwig'']) (agedRecorder, agedWorld)))
      ''data/twitch_ludwig_20251230_1000.jsonl'' =
     Some (''{line 1}'' @ jsonObject (chatMessage ''ludwig'' ''gg'') @ [CHR 0x0A])"
proof -
  let ?env = "quietEnv (clockAt 31 0 1860) [''twitch_moonmoon'', ''twitch_xqc'', ''twitch_ludwig'']"
  let ?fw1 = "writerOf ''twitch'' ''ludwig'' 0 (clockAt 0 0 0) 2048 [chatMessage ''ludwig'' ''gg'']"
  let ?fw2 = "writerOf ''twitch'' ''xqc'' 1 (clockAt 30 6 1806) 104857600 []"
  let ?fw3 = "writerOf ''twitch'' ''moonmoon'' 2 (clockAt 30 7 1807) 10
     [chatMessage ''moonmoon'' ''hi'']"
  let ?P1 = "''data/twitch_ludwig_20251230_1000.jsonl''"
  let ?P2 = "''data/twitch_xqc_20251230_1030.jsonl''"
  let ?P3 = "''data/twitch_moonmoon_20251230_1030.jsonl''"
  obtain r' w' where run: "checkRotation ?env (agedRecorder, agedWorld) = (r', w')"
    by (cases "checkRotation ?env (agedRecorder, agedWorld)")
  have now: "now ?env = clockAt 31 0 1860" by (simp add: quietEnv_def)
  have d: "distinct (keyOrder ?env)" by (simp add: quietEnv_def)
  have s: "set (keyOrder ?env) = dom (currentFiles agedRecorder)"
    using aged_dom by (simp add: quietEnv_def)
  have v: "\<forall>k' fw'. currentFiles agedRecorder k' = Some fw' \<longrightarrow>
      fileHandle fw' < length (handles agedWorld)"
    using aged_facts(1) by blast
  have h: "fileHandle ?fw1 = 0" "fileHandle ?fw2 = 1" "fileHandle ?fw3 = 2"
    by (simp_all add: writerOf_def)
  have p: "pathOf agedWorld 0 = ?P1" "pathOf agedWorld 1 = ?P2" "pathOf agedWorld 2 = ?P3"
    by (simp_all add: agedWorld_def pathOf_def)
  have o: "isOpen agedWorld (fileHandle ?fw1)" "isOpen agedWorld (fileHandle ?fw2)"
    "isOpen agedWorld (fileHandle ?fw3)"
    unfolding h by (simp_all add: agedWorld_def isOpen_def)
  have own1: "\<forall>k' fw'. k' \<noteq> ''twitch_ludwig'' \<and> currentFiles agedRecorder k' = Some fw' \<longrightarrow>
      fileHandle fw' \<noteq> fileHandle ?fw1"
    unfolding h using aged_facts(3) by blast
  have own2: "\<forall>k' fw'. k' \<noteq> ''twitch_xqc'' \<and> currentFiles agedRecorder k' = Some fw' \<longrightarrow>
      fileHandle fw' \<noteq> fileHandle ?fw2"
    unfolding h using aged_facts(4) by blast
  have own3: "\<forall>k' fw'. k' \<noteq> ''twitch_moonmoon'' \<and> currentFiles agedRecorder k' = Some fw' \<longrightarrow>
      fileHandle fw' \<noteq> fileHandle ?fw3"
    unfolding h using aged_facts(5) by blast
  note t1 = checkRotation_rotates_exactly_when_due[OF d s v aged_entries(1) o(1) own1 run]
  note t2 = checkRotation_rotates_exactly_when_due[OF d s v aged_entries(2) o(2) own2 run]
  note t3 = checkRotation_rotates_exactly_when_due[OF d s v aged_entries(3) o(3) own3 run]
  have range: "0 \<le> rotateMinutes agedRecorder \<and> rotateMinutes agedRecorder \<le> 262144"
    by (simp add: agedRecorder_def)
  have cfg: "rotateMinutes agedRecorder = 30" "rotateMegabytes agedRecorder = 104857600"
    "outputDir agedRecorder = ''data''"
    by (simp_all add: agedRecorder_def)
  \<comment> \<open>which writers are due\<close>
  from t1[THEN conjunct2, THEN conjunct1] range
  have "needsRotation ?env agedRecorder ?fw1 \<longleftrightarrow>
      rotateMinutes agedRecorder * 60000000000 \<le> mono (now ?env) - mono (createdAt ?fw1) \<or>
      rotateMegabytes agedRecorder \<le> bytesWritten ?fw1"
    by (rule mp)
  moreover have "rotateMinutes agedRecorder * 60000000000 \<le>
      mono (now ?env) - mono (createdAt ?fw1)"
    by (simp add: cfg quietEnv_def clockAt_def writerOf_def)
  ultimately have n1: "needsRotation ?env agedRecorder ?fw1" by blast
  have size1: "\<not> rotateMegabytes agedRecorder \<le> 2048" by (simp add: cfg)
  from t1[THEN conjunct1] n1 size1
  have time1: "fge (Minutes (Since ?env (clockAt 0 0 0))) (fromInt (rotateMinutes agedRecorder))"
    by (simp add: writerOf_def)
  from t2[THEN conjunct2, THEN conjunct1] range
  have "needsRotation ?env agedRecorder ?fw2 \<longleftrightarrow>
      rotateMinutes agedRecorder * 60000000000 \<le> mono (now ?env) - mono (createdAt ?fw2) \<or>
      rotateMegabytes agedRecorder \<le> bytesWritten ?fw2"
    by (rule mp)
  moreover have "rotateMegabytes agedRecorder \<le> bytesWritten ?fw2"
    by (simp add: cfg writerOf_def)
  ultimately have n2: "needsRotation ?env agedRecorder ?fw2" by blast
  have size2: "rotateMegabytes agedRecorder \<le> 104857600" by (simp add: cfg)
  have "\<not> needsRotation ?env agedRecorder
      (writerOf ''twitch'' ''xqc'' 1 (clockAt 30 6 1806) 0 [])"
    using needsRotation_iff[of agedRecorder ?env
        "writerOf ''twitch'' ''xqc'' 1 (clockAt 30 6 1806) 0 []"] range
    by (simp add: cfg quietEnv_def clockAt_def writerOf_def)
  then have time2: "\<not> fge (Minutes (Since ?env (clockAt 30 6 1806)))
      (fromInt (rotateMinutes agedRecorder))"
    by (simp add: needsRotation_def writerOf_def)
  from t3[THEN conjunct2, THEN conjunct1] range
  have "needsRotation ?env agedRecorder ?fw3 \<longleftrightarrow>
      rotateMinutes agedRecorder * 60000000000 \<le> mono (now ?env) - mono (createdAt ?fw3) \<or>
      rotateMegabytes agedRecorder \<le> bytesWritten ?fw3"
    by (rule mp)
  moreover have "\<not> (rotateMinutes agedRecorder * 60000000000 \<le>
      mono (now ?env) - mono (createdAt ?fw3) \<or>
      rotateMegabytes agedRecorder \<le> bytesWritten ?fw3)"
    by (simp add: cfg quietEnv_def clockAt_def writerOf_def)
  ultimately have n3: "\<not> needsRotation ?env agedRecorder ?fw3" by blast
  \<comment> \<open>the files\<close>
  from t1[THEN conjunct2, THEN conjunct2, THEN conjunct2, THEN conjunct1] n1
  have c1: "\<not> isOpen w' 0" unfolding h by blast
  from t2[THEN conjunct2, THEN conjunct2, THEN conjunct2, THEN conjunct1] n2
  have c2: "\<not> isOpen w' 1" unfolding h by blast
  from t3[THEN conjunct2, THEN conjunct2, THEN conjunct2, THEN conjunct1] n3
  have c3: "isOpen w' 2" unfolding h by blast
  from t3[THEN conjunct2, THEN conjunct2, THEN conjunct1] n3
  have k3: "currentFiles r' ''twitch_moonmoon'' = Some ?fw3" by blast
  have others3: "\<forall>k' fw'. k' \<noteq> ''twitch_moonmoon'' \<and> currentFiles agedRecorder k' = Some fw' \<longrightarrow>
      pathOf agedWorld (fileHandle fw') \<noteq> pathOf agedWorld (fileHandle ?fw3) \<and>
      Join (outputDir agedRecorder) (segmentName (platform fw') (channel fw') (now ?env)) \<noteq>
        pathOf agedWorld (fileHandle ?fw3)"
    unfolding h p now using aged_facts(2,5) by blast
  from t3[THEN conjunct2, THEN conjunct2, THEN conjunct2, THEN conjunct2, THEN conjunct1]
    n3 others3
  have "disk w' (pathOf agedWorld (fileHandle ?fw3)) = disk agedWorld (pathOf agedWorld (fileHandle ?fw3))"
    by blast
  then have d3: "disk w' ?P3 = Some ''{line 3}''"
    unfolding h p by (simp add: agedWorld_def)
  \<comment> \<open>the rotation of the first writer\<close>
  note due1 = t1[THEN conjunct2, THEN conjunct2, THEN conjunct2, THEN conjunct2, THEN conjunct2,
      THEN mp, OF n1]
  have new1: "Join (outputDir agedRecorder)
      (segmentName (platform ?fw1) (channel ?fw1) (now ?env)) =
      ''data/twitch_ludwig_20251230_1031.jsonl''"
    by (simp add: cfg now writerOf_def segmentName_clockAt Join_data)
  have cc1: "canCreate ?env (Join (outputDir agedRecorder)
      (segmentName (platform ?fw1) (channel ?fw1) (now ?env)))"
    by (simp add: quietEnv_def)
  from due1[THEN conjunct1] cc1
  have "\<exists>h'. length (handles agedWorld) \<le> h' \<and> isOpen w' h' \<and>
      pathOf w' h' = Join (outputDir agedRecorder)
        (segmentName (platform ?fw1) (channel ?fw1) (now ?env)) \<and>
      currentFiles r' ''twitch_ludwig'' =
        Some \<lparr>fileHandle = h', writerErr = False, createdAt = now ?env, bytesWritten = 0,
              messageBuffer = [], platform = platform ?fw1, channel = channel ?fw1,
              filename = segmentName (platform ?fw1) (channel ?fw1) (now ?env)\<rparr>"
    by (simp only: if_True)
  then obtain h' where r1: "length (handles agedWorld) \<le> h'" "isOpen w' h'"
    "pathOf w' h' = Join (outputDir agedRecorder)
        (segmentName (platform ?fw1) (channel ?fw1) (now ?env))"
    "currentFiles r' ''twitch_ludwig'' =
        Some \<lparr>fileHandle = h', writerErr = False, createdAt = now ?env, bytesWritten = 0,
              messageBuffer = [], platform = platform ?fw1, channel = channel ?fw1,
              filename = segmentName (platform ?fw1) (channel ?fw1) (now ?env)\<rparr>"
    by blast
  from r1(1) have g1: "3 \<le> h'" by (simp add: agedWorld_def)
  from r1(3) have g2: "pathOf w' h' = ''data/twitch_ludwig_20251230_1031.jsonl''"
    by (simp only: new1)
  from r1(4) have g3: "currentFiles r' ''twitch_ludwig'' =
      Some (writerOf ''twitch'' ''ludwig'' h' (clockAt 31 0 1860) 0 [])"
    by (simp add: now writerOf_def)
  from g1 r1(2) g2 g3 have rep: "\<exists>h'. 3 \<le> h' \<and> isOpen w' h' \<and>
      pathOf w' h' = ''data/twitch_ludwig_20251230_1031.jsonl'' \<and>
      currentFiles r' ''twitch_ludwig'' =
        Some (writerOf ''twitch'' ''ludwig'' h' (clockAt 31 0 1860) 0 [])"
    by blast
  have room: "length (fileChan agedWorld) + length (keyOrder ?env) \<le> chanCap agedWorld"
    by (simp add: agedWorld_def quietEnv_def)
  from due1[THEN conjunct2, THEN conjunct1] room
  have "Join (outputDir agedRecorder) (filename ?fw1) \<in> set (fileChan w')" by (rule mp)
  then have q1: "?P1 \<in> set (fileChan w')"
    by (simp add: cfg writerOf_def segmentName_clockAt Join_data)
  have healthy1: "\<not> writerErr ?fw1 \<and> ioFault ?env (fileHandle ?fw1) = None \<and>
      disk agedWorld (pathOf agedWorld (fileHandle ?fw1)) = Some ''{line 1}'' \<and>
      (\<forall>k' fw'. k' \<noteq> ''twitch_ludwig'' \<and> currentFiles agedRecorder k' = Some fw' \<longrightarrow>
         pathOf agedWorld (fileHandle fw') \<noteq> pathOf agedWorld (fileHandle ?fw1)) \<and>
      (\<forall>k' fw'. currentFiles agedRecorder k' = Some fw' \<longrightarrow>
         Join (outputDir agedRecorder) (segmentName (platform fw') (channel fw') (now ?env)) \<noteq>
           pathOf agedWorld (fileHandle ?fw1))"
  proof (intro conjI)
    show "\<not> writerErr ?fw1" by (simp add: writerOf_def)
    show "ioFault ?env (fileHandle ?fw1) = None" by (simp add: quietEnv_def)
    show "disk agedWorld (pathOf agedWorld (fileHandle ?fw1)) = Some ''{line 1}''"
      unfolding h p by (simp add: agedWorld_def)
    show "\<forall>k' fw'. k' \<noteq> ''twitch_ludwig'' \<and> currentFiles agedRecorder k' = Some fw' \<longrightarrow>
         pathOf agedWorld (fileHandle fw') \<noteq> pathOf agedWorld (fileHandle ?fw1)"
      unfolding h p using aged_facts(3) by blast
    show "\<forall>k' fw'. currentFiles agedRecorder k' = Some fw' \<longrightarrow>
         Join (outputDir agedRecorder) (segmentName (platform fw') (channel fw') (now ?env)) \<noteq>
           pathOf agedWorld (fileHandle ?fw1)"
      unfolding h p now using aged_facts(2) by blast
  qed
  from due1[THEN conjunct2, THEN conjunct2, THEN spec, THEN mp, OF healthy1]
  have "disk w' (pathOf agedWorld (fileHandle ?fw1)) =
      Some (''{line 1}'' @ encodeLines (marshal ?env) (messageBuffer ?fw1))" .
  then have f1: "disk w' ?P1 = Some (''{line 1}'' @ jsonObject (chatMessage ''ludwig'' ''gg'') @ [CHR 0x0A])"
    unfolding h p by (simp add: writerOf_def quietEnv_def encodeLines_def)
  \<comment> \<open>the rotation of the second writer\<close>
  note due2 = t2[THEN conjunct2, THEN conjunct2, THEN conjunct2, THEN conjunct2, THEN conjunct2,
      THEN mp, OF n2]
  from due2[THEN conjunct2, THEN conjunct1] room
  have "Join (outputDir agedRecorder) (filename ?fw2) \<in> set (fileChan w')" by (rule mp)
  then have q2: "?P2 \<in> set (fileChan w')"
    by (simp add: cfg writerOf_def segmentName_clockAt Join_data)
  have r'_eq: "r' = fst (checkRotation ?env (agedRecorder, agedWorld))"
    and w'_eq: "w' = snd (checkRotation ?env (agedRecorder, agedWorld))"
    by (simp_all only: run fst_conv snd_conv)
  from time1 size1 time2 size2 n3 c1 c2 c3 k3 d3 rep q1 q2 f1
  show ?thesis unfolding r'_eq w'_eq by (intro conjI)
qed


lemma bitlen_numeral_step: "bitlen (numeral n) = bitlen (numeral n div 2) + 1"
  by (subst compute_bitlen) simp

lemma bitlen_one: "bitlen 1 = 1"
  by (subst compute_bitlen) simp

lemma Minutes_rounds_up:
  "fge (Minutes 15728699999999999) (fromInt 262145)"
  by (simp add: fge_def Minutes_def fromInt_def fadd_def fdiv_def roundTo53_def scaled_def
        roundEven_def quoInt_def remInt_def bitlen_numeral_step bitlen_one Let_def)

text \<open>
  The claim as the specification states it fails from 262145 minutes on: a writer one
  nanosecond short of that age, below the size limit, is rotated, because the sum
  \<open>float64(262144) + float64(59999999999)/(60*1e9)\<close> rounds to 262145.
\<close>

theorem rotation_one_nanosecond_early_counterexample:
  "\<not> (rotateMinutes patientRecorder * 60000000000 \<le> mono almostDue - mono (clockAt 0 0 0) \<or>
       rotateMegabytes patientRecorder \<le> 2048) \<and>
   needsRotation (quietEnv almostDue [''twitch_ludwig'']) patientRecorder
     (writerOf ''twitch'' ''ludwig'' 0 (clockAt 0 0 0) 2048 []) \<and>
   currentFiles (fst (checkRotation (quietEnv almostDue [''twitch_ludwig''])
       (patientRecorder, patientWorld))) ''twitch_ludwig'' \<noteq>
     Some (writerOf ''twitch'' ''ludwig'' 0 (clockAt 0 0 0) 2048 []) \<and>
   \<not> isOpen (snd (checkRotation (quietEnv almostDue [''twitch_ludwig''])
       (patientRecorder, patientWorld))) 0"
proof -
  let ?env = "quietEnv almostDue [''twitch_ludwig'']"
  let ?fw = "writerOf ''twitch'' ''ludwig'' 0 (clockAt 0 0 0) 2048 []"
  have a: "\<not> (rotateMinutes patientRecorder * 60000000000 \<le> mono almostDue - mono (clockAt 0 0 0) \<or>
       rotateMegabytes patientRecorder \<le> 2048)"
    by (simp add: patientRecorder_def almostDue_def clockAt_def)
  have since: "Since ?env (createdAt ?fw) = 15728699999999999"
    by (simp add: Since_def subMono_def quietEnv_def almostDue_def clockAt_def writerOf_def)
  have n: "needsRotation ?env patientRecorder ?fw"
    unfolding needsRotation_def since using Minutes_rounds_up by (simp add: patientRecorder_def)
  have entry: "currentFiles patientRecorder ''twitch_ludwig'' = Some ?fw"
    by (simp add: patientRecorder_def)
  have "checkRotation ?env (patientRecorder, patientWorld) =
      rotationStep ?env ''twitch_ludwig'' (patientRecorder, patientWorld)"
    by (simp add: checkRotation_def quietEnv_def)
  also have "\<dots> = rotateFile ?env ''twitch_ludwig'' ?fw (patientRecorder, patientWorld)"
    using entry n by (rule rotationStep_due)
  finally have run: "checkRotation ?env (patientRecorder, patientWorld) =
      rotateFile ?env ''twitch_ludwig'' ?fw (patientRecorder, patientWorld)" .
  obtain r2 w2 where rot: "rotateFile ?env ''twitch_ludwig'' ?fw (patientRecorder, patientWorld) = (r2, w2)"
    by (cases "rotateFile ?env ''twitch_ludwig'' ?fw (patientRecorder, patientWorld)")
  have hl: "fileHandle ?fw < length (handles patientWorld)"
    by (simp add: writerOf_def patientWorld_def)
  have "\<not> isOpen w2 (fileHandle ?fw)" using rot hl by (rule rotateFile_old_handle_closed)
  then have c: "\<not> isOpen w2 0" by (simp add: writerOf_def)
  have cc: "canCreate ?env (Join (outputDir patientRecorder)
      (segmentName (platform ?fw) (channel ?fw) (now ?env)))"
    by (simp add: quietEnv_def)
  from rot rotateFile_created[OF cc, of "''twitch_ludwig''" patientWorld]
  have "\<exists>newFw. currentFiles r2 ''twitch_ludwig'' = Some newFw \<and>
      fileHandle newFw = length (handles patientWorld)"
    by auto
  then have b: "currentFiles r2 ''twitch_ludwig'' \<noteq> Some ?fw"
    by (auto simp: writerOf_def patientWorld_def)
  from a n b c show ?thesis unfolding run rot fst_conv snd_conv by (intro conjI)
qed


subsection \<open>A run of the recorder in which a rotation falls in the minute of the segment\<close>

lemma floodMessage_fields:
  "Platform floodMessage = ''twitch''" "Channel floodMessage = ''ludwig''"
  "length (Message floodMessage) = 1048576"
  by (simp_all add: floodMessage_def chatMessage_def)

lemma jsonObject_longer: "length (Message m) \<le> length (jsonObject m)"
  by (simp add: jsonObject_def jsonField_def)

lemma floodMessage_fills_segment: "1048576 \<le> int (length (jsonObject floodMessage)) + 1"
  using jsonObject_longer[of floodMessage] by (simp add: floodMessage_fields)

lemma New_small:
  "New ''data'' 1 60 1 =
     \<lparr>outputDir = ''data'', bufferSize = 1, rotateMinutes = 60,
      rotateMegabytes = 1048576, currentFiles = Map.empty\<rparr>"
  by (simp add: New_def)

lemma run_first_message:
  "recordMessage (quietEnv (clockAt 30 5 5) []) floodMessage
     (New ''data'' 1 60 1, emptyWorld 100) =
   (None,
    \<lparr>outputDir = ''data'', bufferSize = 1, rotateMinutes = 60, rotateMegabytes = 1048576,
     currentFiles = [''twitch_ludwig'' \<mapsto>
       writerOf ''twitch'' ''ludwig'' 0 (clockAt 30 5 5)
         (int (length (jsonObject floodMessage)) + 1) []]\<rparr>,
    \<lparr>disk = [''data/twitch_ludwig_20251230_1030.jsonl'' \<mapsto>
               jsonObject floodMessage @ [CHR 0x0A]],
     handles = [(''data/twitch_ludwig_20251230_1030.jsonl'', True)],
     fileChan = [], chanCap = 100\<rparr>)"
  by (simp add: recordMessage_def floodMessage_fields createFileWriter_def osCreate_def
        segmentName_1030 New_small emptyWorld_def Join_data Let_def quietEnv_def
        flushFileWriter_def sinkFault_def isOpen_def writeFile_def pathOf_def writerOf_def)

lemma run_rotation:
  "checkRotation (quietEnv (clockAt 30 40 40) [''twitch_ludwig''])
     (\<lparr>outputDir = ''data'', bufferSize = 1, rotateMinutes = 60, rotateMegabytes = 1048576,
       currentFiles = [''twitch_ludwig'' \<mapsto>
         writerOf ''twitch'' ''ludwig'' 0 (clockAt 30 5 5)
           (int (length (jsonObject floodMessage)) + 1) []]\<rparr>,
      \<lparr>disk = [''data/twitch_ludwig_20251230_1030.jsonl'' \<mapsto>
                 jsonObject floodMessage @ [CHR 0x0A]],
       handles = [(''data/twitch_ludwig_20251230_1030.jsonl'', True)],
       fileChan = [], chanCap = 100\<rparr>) =
   (\<lparr>outputDir = ''data'', bufferSize = 1, rotateMinutes = 60, rotateMegabytes = 1048576,
     currentFiles = [''twitch_ludwig'' \<mapsto>
       writerOf ''twitch'' ''ludwig'' 1 (clockAt 30 40 40) 0 []]\<rparr>,
    \<lparr>disk = [''data/twitch_ludwig_20251230_1030.jsonl'' \<mapsto> []],
     handles = [(''data/twitch_ludwig_20251230_1030.jsonl'', False),
                (''data/twitch_ludwig_20251230_1030.jsonl'', True)],
     fileChan = [''data/twitch_ludwig_20251230_1030.jsonl''], chanCap = 100\<rparr>)"
  using floodMessage_fills_segment
  by (simp add: checkRotation_def rotationStep_def needsRotation_def rotateFile_def
        createFileWriter_def osCreate_def segmentName_1030 Join_data Let_def quietEnv_def
        flushFileWriter_def sinkFault_def isOpen_def writeFile_def closeFile_def trySend_def
        pathOf_def writerOf_def)

lemma run_second_message:
  "recordMessage (quietEnv (clockAt 30 50 50) []) (chatMessage ''ludwig'' ''gg'')
     (\<lparr>outputDir = ''data'', bufferSize = 1, rotateMinutes = 60, rotateMegabytes = 1048576,
       currentFiles = [''twitch_ludwig'' \<mapsto>
         writerOf ''twitch'' ''ludwig'' 1 (clockAt 30 40 40) 0 []]\<rparr>,
      \<lparr>disk = [''data/twitch_ludwig_20251230_1030.jsonl'' \<mapsto> []],
       handles = [(''data/twitch_ludwig_20251230_1030.jsonl'', False),
                  (''data/twitch_ludwig_20251230_1030.jsonl'', True)],
       fileChan = [''data/twitch_ludwig_20251230_1030.jsonl''], chanCap = 100\<rparr>) =
   (None,
    \<lparr>outputDir = ''data'', bufferSize = 1, rotateMinutes = 60, rotateMegabytes = 1048576,
     currentFiles = [''twitch_ludwig'' \<mapsto>
       writerOf ''twitch'' ''ludwig'' 1 (clockAt 30 40 40)
         (int (length (jsonObject (chatMessage ''ludwig'' ''gg''))) + 1) []]\<rparr>,
    \<lparr>disk = [''data/twitch_ludwig_20251230_1030.jsonl'' \<mapsto>
               jsonObject (chatMessage ''ludwig'' ''gg'') @ [CHR 0x0A]],
     handles = [(''data/twitch_ludwig_20251230_1030.jsonl'', False),
                (''data/twitch_ludwig_20251230_1030.jsonl'', True)],
     fileChan = [''data/twitch_ludwig_20251230_1030.jsonl''], chanCap = 100\<rparr>)"
proof -
  have k: "Platform (chatMessage ''ludwig'' ''gg'') = ''twitch''"
    "Channel (chatMessage ''ludwig'' ''gg'') = ''ludwig''"
    by (simp_all add: chatMessage_def)
  show ?thesis
    by (simp add: recordMessage_def k Let_def quietEnv_def flushFileWriter_def sinkFault_def
          isOpen_def writeFile_def pathOf_def writerOf_def)
qed

lemma run_shutdown:
  "flushAll (quietEnv (clockAt 31 0 60) [''twitch_ludwig''])
     (\<lparr>outputDir = ''data'', bufferSize = 1, rotateMinutes = 60, rotateMegabytes = 1048576,
       currentFiles = [''twitch_ludwig'' \<mapsto>
         writerOf ''twitch'' ''ludwig'' 1 (clockAt 30 40 40)
           (int (length (jsonObject (chatMessage ''ludwig'' ''gg''))) + 1) []]\<rparr>,
      \<lparr>disk = [''data/twitch_ludwig_20251230_1030.jsonl'' \<mapsto>
                 jsonObject (chatMessage ''ludwig'' ''gg'') @ [CHR 0x0A]],
       handles = [(''data/twitch_ludwig_20251230_1030.jsonl'', False),
                  (''data/twitch_ludwig_20251230_1030.jsonl'', True)],
       fileChan = [''data/twitch_ludwig_20251230_1030.jsonl''], chanCap = 100\<rparr>) =
   (\<lparr>outputDir = ''data'', bufferSize = 1, rotateMinutes = 60, rotateMegabytes = 1048576,
     currentFiles = Map.empty\<rparr>,
    \<lparr>disk = [''data/twitch_ludwig_20251230_1030.jsonl'' \<mapsto>
               jsonObject (chatMessage ''ludwig'' ''gg'') @ [CHR 0x0A]],
     handles = [(''data/twitch_ludwig_20251230_1030.jsonl'', False),
                (''data/twitch_ludwig_20251230_1030.jsonl'', False)],
     fileChan = [''data/twitch_ludwig_20251230_1030.jsonl'',
                 ''data/twitch_ludwig_20251230_1030.jsonl''], chanCap = 100\<rparr>)"
  by (simp add: flushAll_def flushStep_def segmentName_1030 Join_data Let_def quietEnv_def
        flushFileWriter_def sinkFault_def isOpen_def writeFile_def closeFile_def trySend_def
        pathOf_def writerOf_def)

text \<open>
  C1. The claim is that the segment files of one key, read in the order of their
  creation, hold every recorded message once and in order. The run below refutes it for
  the code. The recorder is \<open>New "data" 1 60 1\<close>: every message is flushed as it
  arrives and a segment is rotated at one mebibyte. A first message for twitch/ludwig,
  of one mebibyte, arrives at 10:30:05 and is written to
  \<open>data/twitch_ludwig_20251230_1030.jsonl\<close> without error. The rotation check at
  10:30:40 finds the segment over the size limit and rotates it; the replacement writer
  is created in the same minute, under the same name, and \<open>os.Create\<close> empties the
  file. A second message arrives at 10:30:50 and the recorder is shut down at 10:31:00.
  At the end the only file on disk holds the line of the second message alone: the first
  message, recorded without error, is in no segment, and the completed segment was queued
  for upload twice under the one path.
\<close>

theorem same_minute_rotation_loses_recorded_message:
  "recordMessage (quietEnv (clockAt 30 5 5) []) floodMessage
     (New ''data'' 1 60 1, emptyWorld 100) =
   (None,
    \<lparr>outputDir = ''data'', bufferSize = 1, rotateMinutes = 60, rotateMegabytes = 1048576,
     currentFiles = [''twitch_ludwig'' \<mapsto>
       writerOf ''twitch'' ''ludwig'' 0 (clockAt 30 5 5)
         (int (length (jsonObject floodMessage)) + 1) []]\<rparr>,
    \<lparr>disk = [''data/twitch_ludwig_20251230_1030.jsonl'' \<mapsto>
               jsonObject floodMessage @ [CHR 0x0A]],
     handles = [(''data/twitch_ludwig_20251230_1030.jsonl'', True)],
     fileChan = [], chanCap = 100\<rparr>) \<and>
   runLoop
     [(quietEnv (clockAt 30 5 5) [], Msg floodMessage),
      (quietEnv (clockAt 30 40 40) [''twitch_ludwig''], Tick),
      (quietEnv (clockAt 30 50 50) [], Msg (chatMessage ''ludwig'' ''gg'')),
      (quietEnv (clockAt 31 0 60) [''twitch_ludwig''], Done)]
     (New ''data'' 1 60 1, emptyWorld 100) =
   (\<lparr>outputDir = ''data'', bufferSize = 1, rotateMinutes = 60, rotateMegabytes = 1048576,
     currentFiles = Map.empty\<rparr>,
    \<lparr>disk = [''data/twitch_ludwig_20251230_1030.jsonl'' \<mapsto>
               jsonObject (chatMessage ''ludwig'' ''gg'') @ [CHR 0x0A]],
     handles = [(''data/twitch_ludwig_20251230_1030.jsonl'', False),
                (''data/twitch_ludwig_20251230_1030.jsonl'', False)],
     fileChan = [''data/twitch_ludwig_20251230_1030.jsonl'',
                 ''data/twitch_ludwig_20251230_1030.jsonl''], chanCap = 100\<rparr>) \<and>
   jsonObject floodMessage \<noteq> jsonObject (chatMessage ''ludwig'' ''gg'')"
proof -
  have "length (jsonObject (chatMessage ''ludwig'' ''gg'')) < 1000"
    by (simp add: jsonObject_def jsonField_def chatMessage_def)
  with floodMessage_fills_segment
  have "length (jsonObject floodMessage) \<noteq> length (jsonObject (chatMessage ''ludwig'' ''gg''))"
    by linarith
  then have ne: "jsonObject floodMessage \<noteq> jsonObject (chatMessage ''ludwig'' ''gg'')"
    by metis
  have "runLoop
     [(quietEnv (clockAt 30 5 5) [], Msg floodMessage),
      (quietEnv (clockAt 30 40 40) [''twitch_ludwig''], Tick),
      (quietEnv (clockAt 30 50 50) [], Msg (chatMessage ''ludwig'' ''gg'')),
      (quietEnv (clockAt 31 0 60) [''twitch_ludwig''], Done)]
     (New ''data'' 1 60 1, emptyWorld 100) =
    flushAll (quietEnv (clockAt 31 0 60) [''twitch_ludwig''])
     (snd (recordMessage (quietEnv (clockAt 30 50 50) []) (chatMessage ''ludwig'' ''gg'')
       (checkRotation (quietEnv (clockAt 30 40 40) [''twitch_ludwig''])
         (snd (recordMessage (quietEnv (clockAt 30 5 5) []) floodMessage
           (New ''data'' 1 60 1, emptyWorld 100))))))"
    by (simp only: runLoop.simps)
  also have "\<dots> =
    (\<lparr>outputDir = ''data'', bufferSize = 1, rotateMinutes = 60, rotateMegabytes = 1048576,
     currentFiles = Map.empty\<rparr>,
    \<lparr>disk = [''data/twitch_ludwig_20251230_1030.jsonl'' \<mapsto>
               jsonObject (chatMessage ''ludwig'' ''gg'') @ [CHR 0x0A]],
     handles = [(''data/twitch_ludwig_20251230_1030.jsonl'', False),
                (''data/twitch_ludwig_20251230_1030.jsonl'', False)],
     fileChan = [''data/twitch_ludwig_20251230_1030.jsonl'',
                 ''data/twitch_ludwig_20251230_1030.jsonl''], chanCap = 100\<rparr>)"
    by (simp only: run_first_message run_rotation run_second_message run_shutdown snd_conv)
  finally show ?thesis using run_first_message ne by (intro conjI)
qed


text \<open>
  C7. The claim is that a rotation with the channel at capacity drops the send and
  leaves the completed segment on disk. The run below refutes the second part for the
  code. The recorder is \<open>New "data" 100 60 100\<close>; the writer for twitch/ludwig was created
  at 10:30:05, has reached the size limit and has one message pending; its file holds
  \<open>hello!\<close>; the channel has capacity 1 and holds one path. \<open>rotateFile\<close> runs at
  10:30:40: the send is dropped and the channel is unchanged, the replacement writer is
  created under the name of the segment just completed, and the file is empty afterwards.
  The completed segment is neither queued nor left on disk.
\<close>

theorem full_queue_rotation_in_the_same_minute_loses_the_segment:
  "needsRotation (quietEnv (clockAt 30 40 40) [''twitch_ludwig'']) (New ''data'' 100 60 100)
     \<lparr>fileHandle = 0, writerErr = False, createdAt = clockAt 30 5 5,
      bytesWritten = 104857600, messageBuffer = [chatMessage ''ludwig'' ''gg''],
      platform = ''twitch'', channel = ''ludwig'',
      filename = ''twitch_ludwig_20251230_1030.jsonl''\<rparr> \<and>
   rotateFile (quietEnv (clockAt 30 40 40) [''twitch_ludwig'']) ''twitch_ludwig''
     \<lparr>fileHandle = 0, writerErr = False, createdAt = clockAt 30 5 5,
      bytesWritten = 104857600, messageBuffer = [chatMessage ''ludwig'' ''gg''],
      platform = ''twitch'', channel = ''ludwig'',
      filename = ''twitch_ludwig_20251230_1030.jsonl''\<rparr>
     (New ''data'' 100 60 100,
      \<lparr>disk = [''data/twitch_ludwig_20251230_1030.jsonl'' \<mapsto> ''hello!''],
       handles = [(''data/twitch_ludwig_20251230_1030.jsonl'', True)],
       fileChan = [''data/kick_xqc_20251230_0930.jsonl''], chanCap = 1\<rparr>) =
   (\<lparr>outputDir = ''data'', bufferSize = 100, rotateMinutes = 60,
     rotateMegabytes = 104857600,
     currentFiles = [''twitch_ludwig'' \<mapsto>
       \<lparr>fileHandle = 1, writerErr = False, createdAt = clockAt 30 40 40, bytesWritten = 0,
        messageBuffer = [], platform = ''twitch'', channel = ''ludwig'',
        filename = ''twitch_ludwig_20251230_1030.jsonl''\<rparr>]\<rparr>,
    \<lparr>disk = [''data/twitch_ludwig_20251230_1030.jsonl'' \<mapsto> []],
     handles = [(''data/twitch_ludwig_20251230_1030.jsonl'', False),
                (''data/twitch_ludwig_20251230_1030.jsonl'', True)],
     fileChan = [''data/kick_xqc_20251230_0930.jsonl''], chanCap = 1\<rparr>)"
proof -
  have n: "needsRotation (quietEnv (clockAt 30 40 40) [''twitch_ludwig'']) (New ''data'' 100 60 100)
     \<lparr>fileHandle = 0, writerErr = False, createdAt = clockAt 30 5 5,
      bytesWritten = 104857600, messageBuffer = [chatMessage ''ludwig'' ''gg''],
      platform = ''twitch'', channel = ''ludwig'',
      filename = ''twitch_ludwig_20251230_1030.jsonl''\<rparr>"
    by (simp add: needsRotation_def New_example)
  have r: "rotateFile (quietEnv (clockAt 30 40 40) [''twitch_ludwig'']) ''twitch_ludwig''
     \<lparr>fileHandle = 0, writerErr = False, createdAt = clockAt 30 5 5,
      bytesWritten = 104857600, messageBuffer = [chatMessage ''ludwig'' ''gg''],
      platform = ''twitch'', channel = ''ludwig'',
      filename = ''twitch_ludwig_20251230_1030.jsonl''\<rparr>
     (New ''data'' 100 60 100,
      \<lparr>disk = [''data/twitch_ludwig_20251230_1030.jsonl'' \<mapsto> ''hello!''],
       handles = [(''data/twitch_ludwig_20251230_1030.jsonl'', True)],
       fileChan = [''data/kick_xqc_20251230_0930.jsonl''], chanCap = 1\<rparr>) =
   (\<lparr>outputDir = ''data'', bufferSize = 100, rotateMinutes = 60,
     rotateMegabytes = 104857600,
     currentFiles = [''twitch_ludwig'' \<mapsto>
       \<lparr>fileHandle = 1, writerErr = False, createdAt = clockAt 30 40 40, bytesWritten = 0,
        messageBuffer = [], platform = ''twitch'', channel = ''ludwig'',
        filename = ''twitch_ludwig_20251230_1030.jsonl''\<rparr>]\<rparr>,
    \<lparr>disk = [''data/twitch_ludwig_20251230_1030.jsonl'' \<mapsto> []],
     handles = [(''data/twitch_ludwig_20251230_1030.jsonl'', False),
                (''data/twitch_ludwig_20251230_1030.jsonl'', True)],
     fileChan = [''data/kick_xqc_20251230_0930.jsonl''], chanCap = 1\<rparr>)"
    by (simp add: rotateFile_def createFileWriter_def osCreate_def segmentName_1030 Join_data
          Let_def quietEnv_def New_example flushFileWriter_def sinkFault_def isOpen_def
          writeFile_def closeFile_def trySend_def pathOf_def)
  from n r show ?thesis by (rule conjI)
qed


end
